theory Spec2Isabelle
  imports Main "HOL-Library.Multiset" "HOL-Library.Sublist"
begin

section \<open>Text\<close>

text \<open>
  A Python \<^verbatim>\<open>str\<close> is a sequence of Unicode code points, and the tree parser counts
  code points (\<^verbatim>\<open>len(prefix) // 2\<close>) in lines that hold box-drawing glyphs. A text is
  therefore a list of code points; \<open>ascii\<close> embeds an ASCII literal.
\<close>

type_synonym ustr = "nat list"

definition ascii :: "string \<Rightarrow> ustr" where
  "ascii s = map of_char s"

text \<open>The characters \<^verbatim>\<open>str.isspace\<close>, \<^verbatim>\<open>str.strip()\<close> and the pattern \<^verbatim>\<open>\s\<close> agree on.\<close>

definition is_space :: "nat \<Rightarrow> bool" where
  "is_space c \<longleftrightarrow>
     (9 \<le> c \<and> c \<le> 13) \<or> (28 \<le> c \<and> c \<le> 32) \<or> c = 133 \<or> c = 160 \<or> c = 5760 \<or>
     (8192 \<le> c \<and> c \<le> 8202) \<or> c = 8232 \<or> c = 8233 \<or> c = 8239 \<or> c = 8287 \<or> c = 12288"

text \<open>The line boundaries of \<^verbatim>\<open>str.splitlines\<close> (the pair CR LF counts once).\<close>

definition is_linebreak :: "nat \<Rightarrow> bool" where
  "is_linebreak c \<longleftrightarrow>
     (10 \<le> c \<and> c \<le> 13) \<or> (28 \<le> c \<and> c \<le> 30) \<or> c = 133 \<or> c = 8232 \<or> c = 8233"

definition lstrip :: "ustr \<Rightarrow> ustr" where
  "lstrip s = dropWhile is_space s"

definition rstrip :: "ustr \<Rightarrow> ustr" where
  "rstrip s = rev (dropWhile is_space (rev s))"

definition strip :: "ustr \<Rightarrow> ustr" where
  "strip s = lstrip (rstrip s)"

definition lstrip_chars :: "ustr \<Rightarrow> ustr \<Rightarrow> ustr" where
  "lstrip_chars cs s = dropWhile (\<lambda>c. c \<in> set cs) s"

definition rstrip_chars :: "ustr \<Rightarrow> ustr \<Rightarrow> ustr" where
  "rstrip_chars cs s = rev (dropWhile (\<lambda>c. c \<in> set cs) (rev s))"

definition startswith :: "ustr \<Rightarrow> ustr \<Rightarrow> bool" where
  "startswith s pre \<longleftrightarrow> take (length pre) s = pre"

definition endswith :: "ustr \<Rightarrow> ustr \<Rightarrow> bool" where
  "endswith s suf \<longleftrightarrow> take (length suf) (rev s) = rev suf"

fun contains :: "ustr \<Rightarrow> ustr \<Rightarrow> bool" where
  "contains [] sub = (sub = [])"
| "contains (c # cs) sub = (startswith (c # cs) sub \<or> contains cs sub)"

fun splitlines_from :: "ustr \<Rightarrow> ustr \<Rightarrow> ustr list" where
  "splitlines_from cur [] = (if cur = [] then [] else [cur])"
| "splitlines_from cur [c] = (if is_linebreak c then [cur] else [cur @ [c]])"
| "splitlines_from cur (c # d # cs) =
     (if c = 13 \<and> d = 10 then cur # splitlines_from [] cs
      else if is_linebreak c then cur # splitlines_from [] (d # cs)
      else splitlines_from (cur @ [c]) (d # cs))"

definition splitlines :: "ustr \<Rightarrow> ustr list" where
  "splitlines s = splitlines_from [] s"

fun split_from :: "nat \<Rightarrow> ustr \<Rightarrow> ustr \<Rightarrow> ustr list" where
  "split_from sep cur [] = [cur]"
| "split_from sep cur (c # cs) =
     (if c = sep then cur # split_from sep [] cs else split_from sep (cur @ [c]) cs)"

text \<open>\<^verbatim>\<open>s.split(sep)\<close> and \<^verbatim>\<open>sep.join(xs)\<close> for the one-character separator \<open>/\<close>.\<close>

definition slash :: nat where
  "slash = 47"

definition split_slash :: "ustr \<Rightarrow> ustr list" where
  "split_slash s = split_from slash [] s"

fun join_slash :: "ustr list \<Rightarrow> ustr" where
  "join_slash [] = []"
| "join_slash [x] = x"
| "join_slash (x # y # ys) = x @ [slash] @ join_slash (y # ys)"

section \<open>The tree-diagram parser\<close>

text \<open>\<^verbatim>\<open>BOX_CHARS\<close>: the four box-drawing glyphs U+2502, U+251C, U+2514 and U+2500.\<close>

definition BOX_CHARS :: ustr where
  "BOX_CHARS = [9474, 9500, 9492, 9472]"

text \<open>The two connectors of the pattern: U+251C U+2500 space, and U+2514 U+2500 space.\<close>

definition starts_connector :: "ustr \<Rightarrow> bool" where
  "starts_connector s \<longleftrightarrow> take 3 s = [9500, 9472, 32] \<or> take 3 s = [9492, 9472, 32]"

text \<open>\<^verbatim>\<open>re.search\<close> of the connector pattern: the start of the leftmost match.\<close>

fun search_connector :: "ustr \<Rightarrow> nat option" where
  "search_connector [] = None"
| "search_connector (c # cs) =
     (if starts_connector (c # cs) then Some 0 else map_option Suc (search_connector cs))"

text \<open>
  \<^verbatim>\<open>re.sub(r"^.*?(connector)", "", raw)\<close>: the pattern is anchored at the start, the
  lazy \<^verbatim>\<open>.*?\<close> stops at the leftmost connector, and \<^verbatim>\<open>.\<close> does not match a line feed.
\<close>

definition sub_connector :: "ustr \<Rightarrow> ustr" where
  "sub_connector raw =
     (case search_connector raw of
        None \<Rightarrow> raw
      | Some i \<Rightarrow> if 10 \<in> set (take i raw) then raw else drop (i + 3) raw)"

definition replace_char :: "nat \<Rightarrow> nat \<Rightarrow> ustr \<Rightarrow> ustr" where
  "replace_char old new s = map (\<lambda>c. if c = old then new else c) s"

definition leading_units :: "ustr \<Rightarrow> nat" where
  "leading_units line =
     (let tmp = fold (\<lambda>ch t. replace_char ch 32 t) BOX_CHARS line;
          pfx = (case search_connector line of
                      Some i \<Rightarrow> take i tmp
                    | None \<Rightarrow> takeWhile is_space tmp)
      in max 0 (length pfx div 2))"

text \<open>The body of the loop of \<^verbatim>\<open>parse_ascii_tree\<close>: one line to (depth, name, is_dir).\<close>

definition tree_item :: "ustr \<Rightarrow> nat \<times> ustr \<times> bool" where
  "tree_item raw =
     (let name0 = strip (sub_connector raw);
          name1 = (if name0 = raw
                   then lstrip_chars (ascii ''- '') (lstrip_chars ([32, 9] @ BOX_CHARS) raw)
                   else name0);
          is_dir = endswith name1 [slash];
          name = (if is_dir then butlast name1 else name1);
          depth = leading_units raw
      in (depth, name, is_dir))"

definition parse_ascii_tree :: "ustr \<Rightarrow> (nat \<times> ustr \<times> bool) list" where
  "parse_ascii_tree tree_text =
     (let lines = map rstrip (filter (\<lambda>ln. strip ln \<noteq> []) (splitlines (strip tree_text)))
      in case lines of
           [] \<Rightarrow> []
         | l0 # _ \<Rightarrow>
             let start_idx = (if endswith (strip l0) [slash] then 1 else 0)
             in map tree_item (drop start_idx lines))"

text \<open>
  \<^verbatim>\<open>collapse_tree\<close>: the loop over the items, with the stack of directory names as the
  state. \<^verbatim>\<open>while len(stack) > depth: stack.pop()\<close> is \<open>take depth stack\<close>. A directory is
  put on the stack before \<^verbatim>\<open>base\<close> is computed, as in the source.
\<close>

fun collapse_from :: "ustr list \<Rightarrow> (nat \<times> ustr \<times> bool) list \<Rightarrow> (ustr \<times> bool) list" where
  "collapse_from stack [] = []"
| "collapse_from stack ((depth, name, is_dir) # items) =
     (let stack1 = take depth stack;
          stack2 = (if is_dir
                    then (if length stack1 = depth then stack1 @ [name]
                          else if stack1 \<noteq> [] then butlast stack1 @ [name]
                          else stack1 @ [name])
                    else stack1);
          base = join_slash stack2;
          rel = (if base \<noteq> [] then (base @ (if base \<noteq> [] then [slash] else [])) @ name
                 else name)
      in (rel, is_dir) # collapse_from stack2 items)"

definition collapse_tree :: "(nat \<times> ustr \<times> bool) list \<Rightarrow> (ustr \<times> bool) list" where
  "collapse_tree items = collapse_from [] items"

section \<open>Decoded structured data\<close>

text \<open>
  What \<^verbatim>\<open>json.loads\<close> and \<^verbatim>\<open>yaml.safe_load\<close> return. A dict is the list of its items
  in insertion order. \<open>PScalar t\<close> is a bool, a number or any other scalar object, carried
  as the text \<^verbatim>\<open>str()\<close> gives for it. \<^verbatim>\<open>str()\<close> of a list or dict is Python's \<^verbatim>\<open>repr\<close>,
  which the functions below take as the parameter \<open>repr\<close>.
\<close>

datatype pyval = PNone | PStr ustr | PScalar ustr | PList "pyval list" | PDict "(pyval \<times> pyval) list"

definition py_str :: "(pyval \<Rightarrow> ustr) \<Rightarrow> pyval \<Rightarrow> ustr" where
  "py_str repr v =
     (case v of PNone \<Rightarrow> ascii ''None'' | PStr s \<Rightarrow> s | PScalar t \<Rightarrow> t | _ \<Rightarrow> repr v)"

text \<open>\<^verbatim>\<open>key in d\<close> and \<^verbatim>\<open>d.get(key)\<close> for a text key: \<open>None\<close> when the key is absent.\<close>

definition dict_get :: "(pyval \<times> pyval) list \<Rightarrow> string \<Rightarrow> pyval option" where
  "dict_get d key = map_of d (PStr (ascii key))"

datatype parse_error =
    FlatNeedsEntries
  | EntryNeedsPath
  | NestedNotObject
  | AttributeError
  | YamlNotInstalled
  | DecodeFailed
  | UnsupportedMode

type_synonym entry = "ustr \<times> bool \<times> ustr option"

text \<open>\<^verbatim>\<open>add\<close>: the record appended to \<^verbatim>\<open>results\<close>.\<close>

definition add :: "ustr \<Rightarrow> bool \<Rightarrow> ustr option \<Rightarrow> entry" where
  "add path is_dir content = (rstrip_chars [slash] path, is_dir, content)"

text \<open>
  \<^verbatim>\<open>p = f"{prefix}/{k}" if prefix else k\<close>, the prefix being \<open>pfx\<close> below: under an empty
  prefix the key itself is passed on, and \<^verbatim>\<open>add\<close> calls \<^verbatim>\<open>rstrip\<close> on it, which only a
  \<^verbatim>\<open>str\<close> has.
\<close>

definition key_path :: "(pyval \<Rightarrow> ustr) \<Rightarrow> ustr \<Rightarrow> pyval \<Rightarrow> parse_error + ustr" where
  "key_path repr pfx k =
     (if pfx \<noteq> [] then Inr (pfx @ [slash] @ py_str repr k)
      else case k of PStr s \<Rightarrow> Inr s | _ \<Rightarrow> Inl AttributeError)"

fun walk :: "(pyval \<Rightarrow> ustr) \<Rightarrow> ustr \<Rightarrow> (pyval \<times> pyval) list \<Rightarrow> parse_error + entry list" where
  "walk repr pfx [] = Inr []"
| "walk repr pfx ((k, v) # rest) =
     (case key_path repr pfx k of
        Inl e \<Rightarrow> Inl e
      | Inr p \<Rightarrow>
          (case v of
             PDict m \<Rightarrow>
               (case walk repr p m of
                  Inl e \<Rightarrow> Inl e
                | Inr below \<Rightarrow>
                    (case walk repr pfx rest of
                       Inl e \<Rightarrow> Inl e
                     | Inr after \<Rightarrow> Inr (add p True None # below @ after)))
           | _ \<Rightarrow>
               (case walk repr pfx rest of
                  Inl e \<Rightarrow> Inl e
                | Inr after \<Rightarrow>
                    Inr (add p False (if v = PNone then None else Some (py_str repr v)) # after))))"

text \<open>
  \<^verbatim>\<open>typ in {"dir","folder","directory"}\<close> after \<^verbatim>\<open>.lower()\<close>. Only the ASCII capitals
  have a lower-case form among the letters of these three words, so the test is the
  comparison after ASCII lower-casing.
\<close>

definition ascii_lower :: "ustr \<Rightarrow> ustr" where
  "ascii_lower s = map (\<lambda>c. if 65 \<le> c \<and> c \<le> 90 then c + 32 else c) s"

definition is_dir_type :: "ustr \<Rightarrow> bool" where
  "is_dir_type typ \<longleftrightarrow>
     ascii_lower typ \<in> set [ascii ''dir'', ascii ''folder'', ascii ''directory'']"

definition flat_entry :: "(pyval \<Rightarrow> ustr) \<Rightarrow> pyval \<Rightarrow> parse_error + entry" where
  "flat_entry repr it =
     (case it of
        PDict d \<Rightarrow>
          (case dict_get d ''path'' of
             None \<Rightarrow> Inl EntryNeedsPath
           | Some pv \<Rightarrow>
               let path = py_str repr pv;
                   typ = py_str repr (case dict_get d ''type'' of None \<Rightarrow> PStr (ascii ''file'') | Some t \<Rightarrow> t);
                   is_dir = (is_dir_type typ \<or> endswith path [slash]);
                   content = (case dict_get d ''content'' of None \<Rightarrow> PNone | Some c \<Rightarrow> c)
               in Inr (add path is_dir (if content = PNone then None else Some (py_str repr content))))
      | _ \<Rightarrow> Inl EntryNeedsPath)"

fun flat_entries :: "(pyval \<Rightarrow> ustr) \<Rightarrow> pyval list \<Rightarrow> parse_error + entry list" where
  "flat_entries repr [] = Inr []"
| "flat_entries repr (it # its) =
     (case flat_entry repr it of
        Inl e \<Rightarrow> Inl e
      | Inr x \<Rightarrow> (case flat_entries repr its of Inl e \<Rightarrow> Inl e | Inr xs \<Rightarrow> Inr (x # xs)))"

definition parse_yaml_or_json :: "(pyval \<Rightarrow> ustr) \<Rightarrow> pyval \<Rightarrow> parse_error + entry list" where
  "parse_yaml_or_json repr data =
     (case data of
        PDict d \<Rightarrow>
          if dict_get d ''entries'' \<noteq> None \<or> dict_get d ''root'' \<noteq> None
          then (case dict_get d ''entries'' of
                  Some (PList entries) \<Rightarrow> flat_entries repr entries
                | _ \<Rightarrow> Inl FlatNeedsEntries)
          else (case (case dict_get d ''tree'' of Some t \<Rightarrow> t | None \<Rightarrow> data) of
                  PDict m \<Rightarrow> walk repr [] m
                | _ \<Rightarrow> Inl NestedNotObject)
      | _ \<Rightarrow> Inl NestedNotObject)"

definition DEFAULT_SNIPPETS :: "(ustr \<times> ustr) list" where
  "DEFAULT_SNIPPETS =
     [(ascii ''README.md'',
         ascii ''# Project'' @ [10, 10] @ ascii ''Describe your project here.'' @ [10]),
      (ascii ''.env.example'',
         ascii ''# Copy to .env and fill values'' @ [10] @ ascii ''API_KEY='' @ [10]),
      (ascii ''requirements.txt'', ascii ''# Add Python dependencies here'' @ [10])]"

text \<open>\<^verbatim>\<open>os.path.basename\<close>: what follows the last \<open>/\<close>.\<close>

definition basename :: "ustr \<Rightarrow> ustr" where
  "basename p = last (split_slash p)"

definition default_snippet :: "ustr \<Rightarrow> ustr" where
  "default_snippet rel =
     (case map_of DEFAULT_SNIPPETS (basename rel) of Some s \<Rightarrow> s | None \<Rightarrow> [])"

section \<open>Paths and the file system\<close>

text \<open>
  A \<^verbatim>\<open>pathlib.Path\<close> (POSIX flavour): the number of leading slashes of its root (0 for a
  relative path, 2 for the root \<open>//\<close>) and its parts. Parsing drops empty parts and
  \<open>.\<close> parts and keeps \<open>..\<close> parts.
\<close>

record ppath =
  slashes :: nat
  parts :: "ustr list"

definition path_of :: "ustr \<Rightarrow> ppath" where
  "path_of s =
     \<lparr> slashes = (if \<not> startswith s [slash] then 0
                  else if startswith s [slash, slash] \<and> \<not> startswith s [slash, slash, slash] then 2
                  else 1),
       parts = filter (\<lambda>x. x \<noteq> [] \<and> x \<noteq> ascii ''.'') (split_slash s) \<rparr>"

definition path_str :: "ppath \<Rightarrow> ustr" where
  "path_str p =
     (if slashes p = 0 \<and> parts p = [] then ascii ''.''
      else replicate (slashes p) slash @ join_slash (parts p))"

text \<open>\<^verbatim>\<open>base / target\<close>: a target with a root replaces the base.\<close>

definition joinpath :: "ppath \<Rightarrow> ustr \<Rightarrow> ppath" where
  "joinpath b target =
     (let t = path_of target
      in if slashes t > 0 then t else \<lparr> slashes = slashes b, parts = parts b @ parts t \<rparr>)"

text \<open>
  The file system is a tree of directories and regular files without symbolic links: a
  map from the parts of an absolute path to the node there, the root being a directory.
  On such a file system \<^verbatim>\<open>Path.resolve()\<close> is the lexical normalisation: a relative path
  starts at the working directory, a \<open>..\<close> part drops the part before it (and stays at
  the root), and the result has the root \<open>/\<close>. The failures modelled are those the shape
  of the tree causes: a node in the way, a missing parent, a regular file where a
  directory is needed, a directory where a file is to be written. Permissions, quotas and
  I/O errors are outside the model, and so is the encoding of names by the operating
  system: a name is the text of its part, and different texts are different names.
\<close>

datatype node = Dir | File ustr

type_synonym path = "ustr list"

type_synonym filesystem = "path \<rightharpoonup> node"

definition node_at :: "filesystem \<Rightarrow> path \<Rightarrow> node option" where
  "node_at fs p = (if p = [] then Some Dir else fs p)"

definition resolve :: "path \<Rightarrow> ppath \<Rightarrow> ppath" where
  "resolve wd p =
     \<lparr> slashes = 1,
       parts = fold (\<lambda>c acc. if c = ascii ''..'' then butlast acc else acc @ [c])
                 (parts p) (if slashes p > 0 then [] else wd) \<rparr>"

text \<open>
  The calls that hand a path to the operating system raise \<^verbatim>\<open>ValueError\<close> when a part of
  it holds the character NUL. \<^verbatim>\<open>Path.resolve()\<close> asks about every part in turn
  (\<^verbatim>\<open>os.lstat\<close>) and lets this exception pass; apart from it, it is the normalisation
  above. \<open>None\<close> stands for the exception.
\<close>

definition has_nul :: "ppath \<Rightarrow> bool" where
  "has_nul p \<longleftrightarrow> list_ex (\<lambda>x. 0 \<in> set x) (parts p)"

definition path_resolve :: "path \<Rightarrow> ppath \<Rightarrow> ppath option" where
  "path_resolve wd p = (if has_nul p then None else Some (resolve wd p))"

text \<open>
  The walk of the operating system along the parts of a path as it is written, from the
  directory \<open>cur\<close>: every part is looked up in a directory, \<open>..\<close> leads to the parent, and
  the walk ends at a node or fails.
\<close>

fun stat_walk :: "filesystem \<Rightarrow> path \<Rightarrow> ustr list \<Rightarrow> path option" where
  "stat_walk fs cur [] = (if node_at fs cur = None then None else Some cur)"
| "stat_walk fs cur (c # cs) =
     (if node_at fs cur \<noteq> Some Dir then None
      else stat_walk fs (if c = ascii ''..'' then butlast cur else cur @ [c]) cs)"

text \<open>
  \<^verbatim>\<open>Path.exists()\<close>: whether the walk ends at a node; \<^verbatim>\<open>False\<close> also when the call raises
  \<^verbatim>\<open>ValueError\<close>.
\<close>

definition path_exists :: "filesystem \<Rightarrow> path \<Rightarrow> ppath \<Rightarrow> bool" where
  "path_exists fs wd p \<longleftrightarrow>
     \<not> has_nul p \<and> stat_walk fs (if slashes p > 0 then [] else wd) (parts p) \<noteq> None"

text \<open>The exceptions that the calls below raise and that the loop catches.\<close>

datatype py_exception =
    FileExistsError
  | FileNotFoundError
  | NotADirectoryError
  | IsADirectoryError
  | UnicodeEncodeError

text \<open>\<^verbatim>\<open>os.mkdir\<close>: one directory, whose parent must be a directory.\<close>

definition os_mkdir :: "filesystem \<Rightarrow> path \<Rightarrow> py_exception + filesystem" where
  "os_mkdir fs p =
     (if node_at fs p \<noteq> None then Inl FileExistsError
      else case node_at fs (butlast p) of
             None \<Rightarrow> Inl FileNotFoundError
           | Some (File _) \<Rightarrow> Inl NotADirectoryError
           | Some Dir \<Rightarrow> Inr (fs(p \<mapsto> Dir)))"

text \<open>
  \<^verbatim>\<open>Path.mkdir(parents=False, exist_ok=True)\<close>, the call that ends the recursion of
  \<^verbatim>\<open>Path.mkdir(parents=True, exist_ok=True)\<close>. Both return the error raised, if any,
  and the file system as it then is.
\<close>

definition mkdir_exist_ok :: "filesystem \<Rightarrow> path \<Rightarrow> py_exception option \<times> filesystem" where
  "mkdir_exist_ok fs p =
     (case os_mkdir fs p of
        Inr fs' \<Rightarrow> (None, fs')
      | Inl FileNotFoundError \<Rightarrow> (Some FileNotFoundError, fs)
      | Inl e \<Rightarrow> if node_at fs p = Some Dir then (None, fs) else (Some e, fs))"

function mkdir_parents :: "filesystem \<Rightarrow> path \<Rightarrow> py_exception option \<times> filesystem" where
  "mkdir_parents fs p =
     (case os_mkdir fs p of
        Inr fs' \<Rightarrow> (None, fs')
      | Inl FileNotFoundError \<Rightarrow>
          if p = [] then (Some FileNotFoundError, fs)
          else (case mkdir_parents fs (butlast p) of
                  (Some e, fs') \<Rightarrow> (Some e, fs')
                | (None, fs') \<Rightarrow> mkdir_exist_ok fs' p)
      | Inl e \<Rightarrow> if node_at fs p = Some Dir then (None, fs) else (Some e, fs))"
  by pat_completeness auto
termination
  by (relation "measure (\<lambda>(fs, p). length p)") auto

text \<open>
  The codec \<^verbatim>\<open>utf-8\<close> encodes every code point but the surrogates U+D800 to U+DFFF.
\<close>

definition encodable :: "ustr \<Rightarrow> bool" where
  "encodable s \<longleftrightarrow> list_all (\<lambda>c. c < 55296 \<or> 57343 < c) s"

text \<open>
  \<^verbatim>\<open>open(abs_path, "w", encoding="utf-8")\<close>: the file is created, or emptied when it is
  there.
\<close>

definition open_w :: "filesystem \<Rightarrow> path \<Rightarrow> py_exception + filesystem" where
  "open_w fs p =
     (case node_at fs p of
        Some Dir \<Rightarrow> Inl IsADirectoryError
      | Some (File _) \<Rightarrow> Inr (fs(p \<mapsto> File []))
      | None \<Rightarrow>
          (case node_at fs (butlast p) of
             None \<Rightarrow> Inl FileNotFoundError
           | Some (File _) \<Rightarrow> Inl NotADirectoryError
           | Some Dir \<Rightarrow> Inr (fs(p \<mapsto> File []))))"

text \<open>
  The \<^verbatim>\<open>with\<close> block: \<^verbatim>\<open>f.write(content)\<close> encodes the content. When the content cannot
  be encoded the call raises, nothing has been written, and the file stays empty. Both
  return the exception raised, if any, and the file system as it then is.
\<close>

definition open_write :: "filesystem \<Rightarrow> path \<Rightarrow> ustr \<Rightarrow> py_exception option \<times> filesystem" where
  "open_write fs p content =
     (case open_w fs p of
        Inl e \<Rightarrow> (Some e, fs)
      | Inr fs' \<Rightarrow>
          if encodable content then (None, fs'(p \<mapsto> File content))
          else (Some UnicodeEncodeError, fs'))"

text \<open>What the \<^verbatim>\<open>with\<close> block leaves in a file it has opened.\<close>

definition written :: "ustr \<Rightarrow> ustr" where
  "written c = (if encodable c then c else [])"

section \<open>The tool\<close>

text \<open>
  What ends a request: the four ways in which the tool raises \<^verbatim>\<open>SpecError\<close>, and the
  \<^verbatim>\<open>ValueError\<close> of \<^verbatim>\<open>Path.resolve()\<close>.
\<close>

datatype spec_error =
    BaseUnset
  | BaseMissing ustr
  | ParseFailed parse_error
  | Escapes ustr ustr
  | ValueError

text \<open>\<^verbatim>\<open>safe_join\<close>: resolve the target within the base; an error if it escapes the base.\<close>

definition safe_join :: "path \<Rightarrow> ppath \<Rightarrow> ustr \<Rightarrow> spec_error + ppath" where
  "safe_join wd b target =
     (case path_resolve wd b of
        None \<Rightarrow> Inl ValueError
      | Some base_res \<Rightarrow>
          (case path_resolve wd (joinpath base_res target) of
             None \<Rightarrow> Inl ValueError
           | Some p \<Rightarrow>
               if \<not> startswith (path_str p) (path_str base_res)
               then Inl (Escapes (path_str p) (path_str base_res))
               else Inr p))"

datatype mode = Auto | Tree | Yaml | Json | Other

text \<open>
  What the tool reads besides its arguments: the environment variable
  \<^verbatim>\<open>MCP_SCAFFOLDER_BASE\<close>, \<^verbatim>\<open>os.getcwd()\<close>, whether PyYAML was imported, the two
  decoders (\<open>None\<close> when the decoder raises), \<^verbatim>\<open>repr\<close> of lists and dicts, and the
  characters the pattern \<^verbatim>\<open>\w\<close> matches.
\<close>

record world =
  environ_base :: "ustr option"
  cwd :: ustr
  yaml_installed :: bool
  yaml_safe_load :: "ustr \<Rightarrow> pyval option"
  json_loads :: "ustr \<Rightarrow> pyval option"
  py_repr :: "pyval \<Rightarrow> ustr"
  word_char :: "nat \<Rightarrow> bool"

definition working_dir :: "world \<Rightarrow> path" where
  "working_dir w = parts (path_of (cwd w))"

record request =
  prompt :: ustr
  target_path :: ustr
  mode :: mode
  overwrite :: bool
  dry_run :: bool

text \<open>
  The three lists of the result. An element of \<^verbatim>\<open>errors\<close> is the text
  \<^verbatim>\<open>f"{abs_path}: {e}"\<close>, kept as the path and the error.
\<close>

record lists =
  created :: "ustr list"
  skipped :: "ustr list"
  errors :: "(ustr \<times> py_exception) list"

record result = lists +
  selected_mode :: mode
  base :: ustr
  target :: ustr
  plan :: "(ustr \<times> ustr) list option"
  is_dry_run :: bool

text \<open>
  \<^verbatim>\<open>re.search(r"^\s*\w+\s*:\s*", text)\<close>: blanks, a word, blanks, a colon. A word
  character is neither a blank nor the colon, so the greedy match is the only one.
\<close>

definition key_colon :: "(nat \<Rightarrow> bool) \<Rightarrow> ustr \<Rightarrow> bool" where
  "key_colon is_word text =
     (let t1 = dropWhile is_space text;
          t2 = dropWhile is_space (dropWhile is_word t1)
      in takeWhile is_word t1 \<noteq> [] \<and> t2 \<noteq> [] \<and> hd t2 = 58)"

definition select_mode :: "world \<Rightarrow> mode \<Rightarrow> ustr \<Rightarrow> mode" where
  "select_mode w m prompt_text =
     (if m = Auto then
        (let text = strip prompt_text;
             first = (if text \<noteq> [] then hd (splitlines text) else [])
         in if startswith text (ascii ''{'') \<or> startswith text (ascii ''['') then Json
            else if key_colon (word_char w) text \<or> contains text (ascii ''entries:'')
                    \<or> contains text (ascii ''tree:'') then Yaml
            else if contains text [9500] \<or> contains text [9492] \<or> contains first [slash]
                    \<or> endswith first [slash] then Tree
            else Tree)
      else m)"

text \<open>The tree branch, with its fallback of one root-level entry per line.\<close>

definition tree_paths :: "ustr \<Rightarrow> (ustr \<times> bool) list" where
  "tree_paths prompt_text =
     (let items = parse_ascii_tree prompt_text;
          items' = (if items = []
                    then map (\<lambda>ln. let isd = endswith ln [slash]
                                    in (0, if isd then butlast ln else ln, isd))
                           (map strip (filter (\<lambda>ln. strip ln \<noteq> []) (splitlines prompt_text)))
                    else items)
      in collapse_tree items')"

text \<open>
  The loop over the parsed entries: \<^verbatim>\<open>paths\<close> gets every entry, \<^verbatim>\<open>contents\<close> the
  content of every file entry (a later entry for the same path replaces an earlier one).
\<close>

fun collect ::
  "entry list \<Rightarrow> (ustr \<times> bool) list \<times> (ustr \<rightharpoonup> ustr option)
     \<Rightarrow> (ustr \<times> bool) list \<times> (ustr \<rightharpoonup> ustr option)" where
  "collect [] acc = acc"
| "collect ((p, isd, content) # es) acc =
     collect es (fst acc @ [(p, isd)], if \<not> isd then (snd acc)(p \<mapsto> content) else snd acc)"

text \<open>The \<^verbatim>\<open>try\<close> block that parses the prompt in the selected mode.\<close>

definition parse_prompt ::
  "world \<Rightarrow> mode \<Rightarrow> ustr \<Rightarrow> parse_error + (ustr \<times> bool) list \<times> (ustr \<rightharpoonup> ustr option)" where
  "parse_prompt w selected prompt_text =
     (if selected = Tree then Inr (tree_paths prompt_text, Map.empty)
      else if selected = Yaml \<or> selected = Json then
        (case (if selected = Yaml
               then (if \<not> yaml_installed w then Inl YamlNotInstalled
                     else case yaml_safe_load w prompt_text of
                            None \<Rightarrow> Inl DecodeFailed | Some d \<Rightarrow> Inr d)
               else (case json_loads w prompt_text of
                       None \<Rightarrow> Inl DecodeFailed | Some d \<Rightarrow> Inr d)) of
           Inl e \<Rightarrow> Inl e
         | Inr data \<Rightarrow>
             (case parse_yaml_or_json (py_repr w) data of
                Inl e \<Rightarrow> Inl e
              | Inr es \<Rightarrow> Inr (collect es ([], Map.empty))))
      else Inl UnsupportedMode)"

text \<open>
  \<^verbatim>\<open>content = contents.get(rel)\<close>, replaced by the default snippet of the base name (or
  the empty text) when it is \<^verbatim>\<open>None\<close>.
\<close>

definition file_content :: "(ustr \<rightharpoonup> ustr option) \<Rightarrow> ustr \<Rightarrow> ustr" where
  "file_content contents rel =
     (case (case contents rel of None \<Rightarrow> None | Some c \<Rightarrow> c) of
        None \<Rightarrow> default_snippet rel
      | Some c \<Rightarrow> c)"

text \<open>
  The body of the loop that creates the entries, after \<^verbatim>\<open>safe_join\<close> has given
  \<^verbatim>\<open>abs_path\<close>: the \<^verbatim>\<open>try\<close> block and its \<^verbatim>\<open>except\<close> clause. \<^verbatim>\<open>abs_path\<close> is
  resolved: it has no \<open>..\<close> part, and \<^verbatim>\<open>abs_path.exists()\<close> is whether its parts hold a
  node.
\<close>

definition entry_step ::
  "bool \<Rightarrow> (ustr \<rightharpoonup> ustr option) \<Rightarrow> ustr \<Rightarrow> bool \<Rightarrow> ppath \<Rightarrow> filesystem \<times> lists
     \<Rightarrow> filesystem \<times> lists" where
  "entry_step ow contents rel isd abs_path st =
     (let fs = fst st; ls = snd st; a = path_str abs_path
      in if isd then
           (case mkdir_parents fs (parts abs_path) of
              (None, fs') \<Rightarrow> (fs', ls\<lparr>created := created ls @ [a]\<rparr>)
            | (Some e, fs') \<Rightarrow> (fs', ls\<lparr>errors := errors ls @ [(a, e)]\<rparr>))
         else if node_at fs (parts abs_path) \<noteq> None \<and> \<not> ow then
           (fs, ls\<lparr>skipped := skipped ls @ [a]\<rparr>)
         else
           (case mkdir_parents fs (butlast (parts abs_path)) of
              (Some e, fs') \<Rightarrow> (fs', ls\<lparr>errors := errors ls @ [(a, e)]\<rparr>)
            | (None, fs') \<Rightarrow>
                (case open_write fs' (parts abs_path) (file_content contents rel) of
                   (Some e, fs'') \<Rightarrow> (fs'', ls\<lparr>errors := errors ls @ [(a, e)]\<rparr>)
                 | (None, fs'') \<Rightarrow> (fs'', ls\<lparr>created := created ls @ [a]\<rparr>))))"

text \<open>
  The loop: \<^verbatim>\<open>safe_join\<close> is outside the \<^verbatim>\<open>try\<close> block, so its error ends the request
  where the loop stands, with the file system as the earlier entries left it.
\<close>

fun materialize ::
  "path \<Rightarrow> bool \<Rightarrow> (ustr \<rightharpoonup> ustr option) \<Rightarrow> ppath \<Rightarrow> (ustr \<times> bool) list
     \<Rightarrow> filesystem \<times> lists \<Rightarrow> spec_error option \<times> filesystem \<times> lists" where
  "materialize wd ow contents base_target [] st = (None, st)"
| "materialize wd ow contents base_target ((rel, isd) # rest) st =
     (case safe_join wd base_target rel of
        Inl e \<Rightarrow> (Some e, st)
      | Inr abs_path \<Rightarrow>
          materialize wd ow contents base_target rest
            (entry_step ow contents rel isd abs_path st))"

text \<open>
  \<^verbatim>\<open>scaffold_project\<close> up to the assignment of \<^verbatim>\<open>base_target\<close>: the configuration, the
  mode, the parsing of the prompt and the target directory. Nothing here writes.
\<close>

definition prepare ::
  "world \<Rightarrow> filesystem \<Rightarrow> request
     \<Rightarrow> spec_error + mode \<times> ppath \<times> (ustr \<times> bool) list \<times> (ustr \<rightharpoonup> ustr option) \<times> ppath" where
  "prepare w fs rq =
     (case environ_base w of
        None \<Rightarrow> Inl BaseUnset
      | Some b \<Rightarrow>
          if b = [] then Inl BaseUnset
          else let base_path = path_of b in
          if \<not> path_exists fs (working_dir w) base_path then Inl (BaseMissing (path_str base_path))
          else let selected = select_mode w (mode rq) (prompt rq) in
          (case parse_prompt w selected (prompt rq) of
             Inl e \<Rightarrow> Inl (ParseFailed e)
           | Inr (paths, contents) \<Rightarrow>
               (case safe_join (working_dir w) base_path
                       (lstrip_chars [slash] (strip (target_path rq))) of
                  Inl e \<Rightarrow> Inl e
                | Inr base_target \<Rightarrow> Inr (selected, base_path, paths, contents, base_target))))"

text \<open>The tool: the result or the error raised, and the file system it leaves.\<close>

definition scaffold_project ::
  "world \<Rightarrow> filesystem \<Rightarrow> request \<Rightarrow> (spec_error + result) \<times> filesystem" where
  "scaffold_project w fs rq =
     (case prepare w fs rq of
        Inl e \<Rightarrow> (Inl e, fs)
      | Inr (selected, base_path, paths, contents, base_target) \<Rightarrow>
          if dry_run rq then
            (Inr \<lparr> created = [], skipped = [], errors = [],
                   selected_mode = selected,
                   base = path_str base_path,
                   target = path_str base_target,
                   plan = Some (map (\<lambda>(rel, isd).
                            (path_str (joinpath base_target rel),
                             if isd then ascii ''dir'' else ascii ''file'')) paths),
                   is_dry_run = True \<rparr>, fs)
          else
            (case materialize (working_dir w) (overwrite rq) contents base_target paths
                    (fs, \<lparr> created = [], skipped = [], errors = [] \<rparr>) of
               (Some e, fs', ls) \<Rightarrow> (Inl e, fs')
             | (None, fs', ls) \<Rightarrow>
                 (Inr \<lparr> created = created ls, skipped = skipped ls,
                        errors = errors ls,
                        selected_mode = selected,
                        base = path_str base_path,
                        target = path_str base_target,
                        plan = None,
                        is_dry_run = False \<rparr>, fs')))"

section \<open>Notions used in the statements and their proofs\<close>

text \<open>
  The absolute path the loop computes for an entry: what \<^verbatim>\<open>safe_join\<close> returns when it
  does not raise.
\<close>

definition entry_path :: "path \<Rightarrow> ppath \<Rightarrow> ustr \<Rightarrow> ppath" where
  "entry_path wd base_target rel = resolve wd (joinpath (resolve wd base_target) rel)"

text \<open>Every path recorded in one of the three lists.\<close>

definition all_paths :: "lists \<Rightarrow> ustr list" where
  "all_paths ls = created ls @ skipped ls @ map fst (errors ls)"

text \<open>The three lists before the loop starts.\<close>

definition no_lists :: lists where
  "no_lists = \<lparr> created = [], skipped = [], errors = [] \<rparr>"

text \<open>Parts as a parsed path has them: not empty and free of \<open>/\<close>.\<close>

definition good_parts :: "ustr list \<Rightarrow> bool" where
  "good_parts ps \<longleftrightarrow> list_all (\<lambda>x. x \<noteq> [] \<and> slash \<notin> set x) ps"

text \<open>
  The mapping of a structured input of the nested-mapping shape: the decoded object
  itself, or the object under its key \<open>tree\<close>, when that is a dict and the input is not
  of the flat-entry shape.
\<close>

definition nested_mapping :: "pyval \<Rightarrow> (pyval \<times> pyval) list option" where
  "nested_mapping data =
     (case data of
        PDict d \<Rightarrow>
          if dict_get d ''entries'' \<noteq> None \<or> dict_get d ''root'' \<noteq> None then None
          else (case dict_get d ''tree'' of
                  None \<Rightarrow> Some d
                | Some (PDict m) \<Rightarrow> Some m
                | Some _ \<Rightarrow> None)
      | _ \<Rightarrow> None)"

text \<open>
  The keys of a nested mapping whose value is not a mapping, at any depth, each as the
  relative path of the key and its value.
\<close>

fun leaf_values :: "(pyval \<Rightarrow> ustr) \<Rightarrow> ustr \<Rightarrow> (pyval \<times> pyval) list \<Rightarrow> (ustr \<times> pyval) list" where
  "leaf_values repr pfx [] = []"
| "leaf_values repr pfx ((k, v) # rest) =
     (case key_path repr pfx k of
        Inl e \<Rightarrow> []
      | Inr p \<Rightarrow>
          (case v of
             PDict m \<Rightarrow> leaf_values repr p m
           | _ \<Rightarrow> [(rstrip_chars [slash] p, v)]))
     @ leaf_values repr pfx rest"

text \<open>
  A file system shaped as a tree: whatever holds a node lies in a directory. Real file
  systems are; the operations above keep this shape.
\<close>

definition tree_shaped :: "filesystem \<Rightarrow> bool" where
  "tree_shaped fs \<longleftrightarrow> (\<forall>p. fs p \<noteq> None \<and> p \<noteq> [] \<longrightarrow> node_at fs (butlast p) = Some Dir)"








section \<open>Example inputs\<close>

text \<open>
  The decoder of the examples: the JSON texts used below, each with the object
  \<^verbatim>\<open>json.loads\<close> returns for it.
\<close>

definition nested_text :: ustr where
  \<open>nested_text = ascii ''{"README.md": null, "n.txt": "hi"}''\<close>

definition nested_data :: pyval where
  "nested_data = PDict [(PStr (ascii ''README.md''), PNone), (PStr (ascii ''n.txt''), PStr (ascii ''hi''))]"

definition flat_text :: ustr where
  \<open>flat_text = ascii ''{"entries": [{"path": "n.txt", "content": "hi"}, {"path": "README.md"}]}''\<close>

definition flat_data :: pyval where
  "flat_data =
     PDict [(PStr (ascii ''entries''),
             PList [PDict [(PStr (ascii ''path''), PStr (ascii ''n.txt'')),
                           (PStr (ascii ''content''), PStr (ascii ''hi''))],
                    PDict [(PStr (ascii ''path''), PStr (ascii ''README.md''))]])]"

definition nested_dir_text :: ustr where
  \<open>nested_dir_text = ascii ''{"src": {"main.py": "print(1)"}, "README.md": null}''\<close>

definition nested_dir_data :: pyval where
  "nested_dir_data =
     PDict [(PStr (ascii ''src''), PDict [(PStr (ascii ''main.py''), PStr (ascii ''print(1)''))]),
            (PStr (ascii ''README.md''), PNone)]"

definition flat_dir_text :: ustr where
  \<open>flat_dir_text =
     ascii ''{"entries": [{"path": "src/main.py", "content": "print(1)"}, {"path": "README.md"}, ''
     @ ascii ''{"path": "src/", "type": "dir"}]}''\<close>

definition flat_dir_data :: pyval where
  "flat_dir_data =
     PDict [(PStr (ascii ''entries''),
             PList [PDict [(PStr (ascii ''path''), PStr (ascii ''src/main.py'')),
                           (PStr (ascii ''content''), PStr (ascii ''print(1)''))],
                    PDict [(PStr (ascii ''path''), PStr (ascii ''README.md''))],
                    PDict [(PStr (ascii ''path''), PStr (ascii ''src/'')),
                           (PStr (ascii ''type''), PStr (ascii ''dir''))]])]"

text \<open>A JSON text whose value is the escape \<^verbatim>\<open>\ud800\<close>, a surrogate on its own.\<close>

definition surrogate_text :: ustr where
  \<open>surrogate_text = ascii ''{"a": "'' @ [92] @ ascii ''ud800"}''\<close>

definition surrogate_data :: pyval where
  "surrogate_data = PDict [(PStr (ascii ''a''), PStr [55296])]"

definition same_path_text :: ustr where
  \<open>same_path_text = ascii ''{"a/": null, "a": "x"}''\<close>

definition same_path_data :: pyval where
  "same_path_data = PDict [(PStr (ascii ''a/''), PNone), (PStr (ascii ''a''), PStr (ascii ''x''))]"

definition example_json_loads :: "ustr \<Rightarrow> pyval option" where
  "example_json_loads =
     map_of [(nested_text, nested_data), (flat_text, flat_data),
             (nested_dir_text, nested_dir_data), (flat_dir_text, flat_dir_data),
             (surrogate_text, surrogate_data), (same_path_text, same_path_data)]"

text \<open>
  The world of the examples: the base \<open>/b\<close>, the working directory \<open>/\<close>, no PyYAML.
  No example renders a list or a dict or selects its mode automatically.
\<close>

definition example_repr :: "pyval \<Rightarrow> ustr" where
  "example_repr v = []"

definition example_word_char :: "nat \<Rightarrow> bool" where
  "example_word_char c \<longleftrightarrow>
     (48 \<le> c \<and> c \<le> 57) \<or> (65 \<le> c \<and> c \<le> 90) \<or> c = 95 \<or> (97 \<le> c \<and> c \<le> 122)"

definition no_yaml :: "ustr \<Rightarrow> pyval option" where
  "no_yaml text = None"

definition example_world :: world where
  "example_world =
     \<lparr> environ_base = Some (ascii ''/b''), cwd = ascii ''/'', yaml_installed = False,
       yaml_safe_load = no_yaml, json_loads = example_json_loads, py_repr = example_repr,
       word_char = example_word_char \<rparr>"

text \<open>A file system that holds the base directory only, and one whose target holds a directory \<open>a\<close>.\<close>

definition example_fs :: filesystem where
  "example_fs = [[ascii ''b''] \<mapsto> Dir]"

definition example_fs_with_dir :: filesystem where
  "example_fs_with_dir =
     [[ascii ''b''] \<mapsto> Dir, [ascii ''b'', ascii ''t''] \<mapsto> Dir,
      [ascii ''b'', ascii ''t'', ascii ''a''] \<mapsto> Dir]"

text \<open>Requests for the target \<open>t\<close>, without overwriting.\<close>

definition tree_request :: "ustr \<Rightarrow> bool \<Rightarrow> request" where
  "tree_request text dry =
     \<lparr> prompt = text, target_path = ascii ''t'', mode = Tree, overwrite = False, dry_run = dry \<rparr>"

definition json_request :: "ustr \<Rightarrow> request" where
  "json_request text =
     \<lparr> prompt = text, target_path = ascii ''t'', mode = Json, overwrite = False, dry_run = False \<rparr>"

text \<open>The tree diagram of the first example of the specification.\<close>

definition example1_prompt :: ustr where
  "example1_prompt =
     ascii ''app/'' @ [10, 9500, 9472, 32] @ ascii ''README.md''
       @ [10, 9492, 9472, 32] @ ascii ''src/''
       @ [10, 32, 32, 32, 9492, 9472, 32] @ ascii ''main.py''"

text \<open>Line-based prompts: two lines, the second one escaping, repeated, or a directory.\<close>

definition escaping_prompt :: ustr where
  "escaping_prompt = ascii ''a'' @ [10] @ ascii ''../../x''"

definition passwd_prompt :: ustr where
  "passwd_prompt = ascii ''../../etc/passwd''"

definition twice_prompt :: ustr where
  "twice_prompt = ascii ''a'' @ [10] @ ascii ''a''"

definition file_then_dir_prompt :: ustr where
  "file_then_dir_prompt = ascii ''a'' @ [10] @ ascii ''a/''"

definition file_and_dir_prompt :: ustr where
  "file_and_dir_prompt = ascii ''a'' @ [10] @ ascii ''d/''"

definition three_lists_prompt :: ustr where
  "three_lists_prompt = ascii ''a'' @ [10] @ ascii ''c'' @ [10] @ ascii ''c/''"

definition base_dir :: ppath where
  "base_dir = \<lparr> slashes = 1, parts = [ascii ''b''] \<rparr>"

definition target_dir :: ppath where
  "target_dir = \<lparr> slashes = 1, parts = [ascii ''b'', ascii ''t''] \<rparr>"

text \<open>The result of a live run in the examples, from its mode and its three lists.\<close>

definition live_result :: "mode \<Rightarrow> ustr list \<Rightarrow> ustr list \<Rightarrow> (ustr \<times> py_exception) list \<Rightarrow> result" where
  "live_result m c s e =
     \<lparr> created = c, skipped = s, errors = e, selected_mode = m, base = ascii ''/b'',
       target = ascii ''/b/t'', plan = None, is_dry_run = False \<rparr>"

text \<open>The contents the parser gives for the JSON texts.\<close>

definition nested_contents :: "ustr \<rightharpoonup> ustr option" where
  "nested_contents = [ascii ''README.md'' \<mapsto> None, ascii ''n.txt'' \<mapsto> Some (ascii ''hi'')]"

definition flat_contents :: "ustr \<rightharpoonup> ustr option" where
  "flat_contents = [ascii ''n.txt'' \<mapsto> Some (ascii ''hi''), ascii ''README.md'' \<mapsto> None]"


section \<open>Properties of the tree-diagram parser\<close>

text \<open>A directory item at the depth of the stack is pushed before the base is joined, so
  the base already ends with its name and the name is appended once more.\<close>

lemma collapse_directory_doubled:
  "name \<noteq> [] \<Longrightarrow>
     collapse_tree ((0, name, True) # items) =
       (name @ [slash] @ name, True) # collapse_from [name] items"
  by (simp add: collapse_tree_def)

section \<open>Properties of the file-system operations\<close>

declare mkdir_parents.simps [simp del]

lemma os_mkdir_Inr: "os_mkdir fs p = Inr fs' \<Longrightarrow> fs' = fs(p \<mapsto> Dir) \<and> node_at fs p = None \<and> node_at fs (butlast p) = Some Dir"
  by (auto simp: os_mkdir_def split: if_splits option.splits node.splits)

lemma mkdir_exist_ok_cases:
  "mkdir_exist_ok fs p = (r, fs') \<Longrightarrow>
     (r = None \<and> fs' = fs(p \<mapsto> Dir) \<and> node_at fs p = None) \<or> (fs' = fs \<and> (r = None \<longrightarrow> node_at fs p = Some Dir))"
  by (auto simp: mkdir_exist_ok_def dest: os_mkdir_Inr split: sum.splits py_exception.splits if_splits)

text \<open>Creating directories only adds directories, at paths that were free.\<close>

lemma mkdir_parents_effect:
  "mkdir_parents fs p = (r, fs') \<Longrightarrow> fs' q = fs q \<or> (q \<noteq> [] \<and> fs q = None \<and> fs' q = Some Dir)"
proof (induction fs p arbitrary: r fs' rule: mkdir_parents.induct)
  case (1 fs p)
  show ?case
  proof (cases "os_mkdir fs p")
    case (Inr fs1)
    with 1(2) show ?thesis
      by (auto simp: mkdir_parents.simps[of fs p] node_at_def dest!: os_mkdir_Inr split: if_splits)
  next
    case (Inl e)
    show ?thesis
    proof (cases "e = FileNotFoundError \<and> p \<noteq> []")
      case False
      with Inl 1(2) show ?thesis
        by (auto simp: mkdir_parents.simps[of fs p] split: py_exception.splits if_splits)
    next
      case True
      obtain r1 fs1 where m: "mkdir_parents fs (butlast p) = (r1, fs1)" by force
      have k: "fs1 q = fs q \<or> (q \<noteq> [] \<and> fs q = None \<and> fs1 q = Some Dir)"
        using 1(1)[OF _ _ _ m] Inl True by simp
      from 1(2) Inl True m show ?thesis
        using k by (auto simp: mkdir_parents.simps[of fs p] node_at_def split: option.splits if_splits dest!: mkdir_exist_ok_cases)
    qed
  qed
qed

lemma mkdir_parents_ok:
  "mkdir_parents fs p = (None, fs') \<Longrightarrow> node_at fs' p = Some Dir"
proof (induction fs p arbitrary: fs' rule: mkdir_parents.induct)
  case (1 fs p)
  show ?case
  proof (cases "os_mkdir fs p")
    case (Inr fs1)
    with 1(2) show ?thesis
      by (auto simp: mkdir_parents.simps[of fs p] node_at_def dest!: os_mkdir_Inr split: if_splits)
  next
    case (Inl e)
    show ?thesis
    proof (cases "e = FileNotFoundError \<and> p \<noteq> []")
      case False
      with Inl 1(2) show ?thesis
        by (auto simp: mkdir_parents.simps[of fs p] split: py_exception.splits if_splits)
    next
      case True
      obtain r1 fs1 where m: "mkdir_parents fs (butlast p) = (r1, fs1)" by force
      from 1(2) Inl True m show ?thesis
        by (auto simp: mkdir_parents.simps[of fs p] node_at_def split: option.splits if_splits dest!: mkdir_exist_ok_cases)
    qed
  qed
qed

lemma mkdir_parents_keeps:
  "mkdir_parents fs p = (r, fs') \<Longrightarrow> fs q = Some n \<Longrightarrow> fs' q = Some n"
  using mkdir_parents_effect[of fs p r fs' q] by auto

lemma mkdir_parents_node_at:
  "mkdir_parents fs p = (r, fs') \<Longrightarrow> node_at fs q = Some n \<Longrightarrow> node_at fs' q = Some n"
  using mkdir_parents_effect[of fs p r fs' q] by (auto simp: node_at_def split: if_splits)

lemma mkdir_parents_existing_dir:
  "node_at fs p = Some Dir \<Longrightarrow> mkdir_parents fs p = (None, fs)"
  by (simp add: mkdir_parents.simps[of fs p] os_mkdir_def)

lemma open_w_Inr:
  "open_w fs p = Inr fs' \<Longrightarrow> fs' = fs(p \<mapsto> File []) \<and> p \<noteq> [] \<and> node_at fs p \<noteq> Some Dir"
  by (auto simp: open_w_def node_at_def split: option.splits node.splits if_splits)

text \<open>
  Writing a file either fails to open it and changes nothing, or leaves a file there:
  with the content when it can be encoded, empty and with an exception otherwise.
\<close>

lemma open_write_cases:
  "open_write fs p c = (r, fs') \<Longrightarrow>
     (r \<noteq> None \<and> fs' = fs) \<or>
     (p \<noteq> [] \<and> node_at fs p \<noteq> Some Dir \<and> fs' = fs(p \<mapsto> File (written c)) \<and> (r = None \<longleftrightarrow> encodable c))"
  by (auto simp: open_write_def written_def split: sum.splits if_splits dest!: open_w_Inr)

lemma encodable_default_snippet: "encodable (default_snippet rel)"
  by (simp add: default_snippet_def DEFAULT_SNIPPETS_def encodable_def ascii_def split: option.splits)

section \<open>Properties of the loop body\<close>

lemma entry_step_lists:
  "entry_step ow cs rel isd p (fs, ls) = (fs', ls') \<Longrightarrow>
     ls' = ls\<lparr>created := created ls @ [path_str p]\<rparr> \<or>
     ls' = ls\<lparr>skipped := skipped ls @ [path_str p]\<rparr> \<or>
     (\<exists>e. ls' = ls\<lparr>errors := errors ls @ [(path_str p, e)]\<rparr>)"
  by (auto simp: entry_step_def Let_def split: if_splits prod.splits option.splits sum.splits)

lemma entry_step_effect:
  assumes "entry_step ow cs rel isd p (fs, ls) = (fs', ls')"
  shows "fs' q = fs q \<or> (q \<noteq> [] \<and> fs q = None \<and> fs' q = Some Dir) \<or>
         (q = parts p \<and> \<not> isd \<and> fs' q = Some (File (written (file_content cs rel))) \<and>
          (ow \<or> fs q = None) \<and> fs q \<noteq> Some Dir)"
proof (cases isd)
  case True
  obtain r fs1 where m: "mkdir_parents fs (parts p) = (r, fs1)" by force
  with assms True have "fs' = fs1"
    by (auto simp: entry_step_def Let_def split: option.splits)
  with mkdir_parents_effect[OF m, of q] show ?thesis by auto
next
  case False
  show ?thesis
  proof (cases "node_at fs (parts p) \<noteq> None \<and> \<not> ow")
    case True
    with assms False show ?thesis by (auto simp: entry_step_def Let_def)
  next
    case nskip: False
    obtain r fs1 where m: "mkdir_parents fs (butlast (parts p)) = (r, fs1)" by force
    note e = mkdir_parents_effect[OF m, of q]
    show ?thesis
    proof (cases r)
      case (Some err)
      with assms False nskip m have "fs' = fs1"
        by (auto simp: entry_step_def Let_def)
      with e show ?thesis by auto
    next
      case None
      let ?c = "file_content cs rel"
      obtain r2 fs2 where o: "open_write fs1 (parts p) ?c = (r2, fs2)" by force
      with assms False nskip m None have f: "fs' = fs2"
        by (auto simp: entry_step_def Let_def split: option.splits)
      from open_write_cases[OF o] show ?thesis
      proof
        assume "r2 \<noteq> None \<and> fs2 = fs1"
        with e f show ?thesis by auto
      next
        assume w: "parts p \<noteq> [] \<and> node_at fs1 (parts p) \<noteq> Some Dir \<and>
                   fs2 = fs1(parts p \<mapsto> File (written ?c)) \<and> (r2 = None \<longleftrightarrow> encodable ?c)"
        show ?thesis
        proof (cases "q = parts p")
          case True
          have "fs q \<noteq> Some Dir" using w mkdir_parents_keeps[OF m, of q Dir] True
            by (auto simp: node_at_def split: if_splits)
          moreover have "ow \<or> fs q = None" using nskip True w by (auto simp: node_at_def)
          ultimately show ?thesis using True False f w by auto
        next
          case False
          with e f w show ?thesis by auto
        qed
      qed
    qed
  qed
qed

lemma entry_step_keeps:
  "entry_step False cs rel isd p (fs, ls) = (fs', ls') \<Longrightarrow> node_at fs q = Some n \<Longrightarrow> node_at fs' q = Some n"
  using entry_step_effect[of False cs rel isd p fs ls fs' ls' q]
  by (auto simp: node_at_def split: if_splits)

lemma entry_step_keeps_dir:
  "entry_step ow cs rel isd p (fs, ls) = (fs', ls') \<Longrightarrow> node_at fs q = Some Dir \<Longrightarrow> node_at fs' q = Some Dir"
  using entry_step_effect[of ow cs rel isd p fs ls fs' ls' q]
  by (auto simp: node_at_def split: if_splits)


lemma entry_step_skip:
  "\<not> isd \<Longrightarrow> \<not> ow \<Longrightarrow> node_at fs (parts p) \<noteq> None \<Longrightarrow>
     entry_step ow cs rel isd p (fs, ls) = (fs, ls\<lparr>skipped := skipped ls @ [path_str p]\<rparr>)"
  by (simp add: entry_step_def)

lemma entry_step_dir_again:
  "node_at fs (parts p) = Some Dir \<Longrightarrow>
     entry_step ow cs rel True p (fs, ls) = (fs, ls\<lparr>created := created ls @ [path_str p]\<rparr>)"
  by (simp add: entry_step_def mkdir_parents_existing_dir)

lemma entry_step_created:
  assumes "entry_step ow cs rel isd p (fs, ls) = (fs', ls')" "created ls' \<noteq> created ls"
  shows "created ls' = created ls @ [path_str p] \<and>
         (if isd then node_at fs' (parts p) = Some Dir
          else (ow \<or> node_at fs (parts p) = None) \<and> encodable (file_content cs rel) \<and>
               node_at fs' (parts p) = Some (File (file_content cs rel)))"
proof (cases isd)
  case True
  with assms show ?thesis
    by (auto simp: entry_step_def Let_def split: if_splits prod.splits option.splits
             dest!: mkdir_parents_ok)
next
  case False
  from assms False have nskip: "ow \<or> node_at fs (parts p) = None"
    by (auto simp: entry_step_def Let_def split: if_splits)
  obtain r fs1 where m: "mkdir_parents fs (butlast (parts p)) = (r, fs1)" by force
  let ?c = "file_content cs rel"
  obtain r2 fs2 where o: "open_write fs1 (parts p) ?c = (r2, fs2)" by force
  from assms False nskip m o have c: "r = None" "r2 = None" "fs' = fs2"
    "created ls' = created ls @ [path_str p]"
    by (auto simp: entry_step_def Let_def split: if_splits option.splits)
  from open_write_cases[OF o] c(2) have "parts p \<noteq> []" "encodable ?c" "fs2 = fs1(parts p \<mapsto> File (written ?c))"
    by auto
  with c nskip False show ?thesis by (simp add: node_at_def written_def)
qed

section \<open>Properties of the loop\<close>

lemma safe_join_Inr: "safe_join wd b t = Inr p \<Longrightarrow> p = entry_path wd b t"
  by (auto simp: safe_join_def path_resolve_def entry_path_def split: if_splits option.splits)

lemma safe_join_Inl: "safe_join wd b t = Inl e \<Longrightarrow>
  e = ValueError \<or>
  e = Escapes (path_str (entry_path wd b t)) (path_str (resolve wd b)) \<and>
  \<not> startswith (path_str (entry_path wd b t)) (path_str (resolve wd b))"
  by (auto simp: safe_join_def path_resolve_def entry_path_def split: if_splits option.splits)

text \<open>What \<^verbatim>\<open>safe_join\<close> returns has no part with a NUL and no \<open>..\<close> part.\<close>

lemma fold_resolve_parts:
  "x \<in> set (fold (\<lambda>c acc. if c = ascii ''..'' then butlast acc else acc @ [c]) cs acc) \<Longrightarrow>
     x \<in> set acc \<or> (x \<in> set cs \<and> x \<noteq> ascii ''..'')"
proof (induction cs arbitrary: acc)
  case Nil
  then show ?case by simp
next
  case (Cons c cs)
  from Cons.IH[OF Cons.prems[simplified]] show ?case
    by (auto dest: in_set_butlastD split: if_splits)
qed

lemma safe_join_parts:
  assumes "safe_join wd b t = Inr p" and "x \<in> set (parts p)"
  shows "x \<noteq> ascii ''..'' \<and> 0 \<notin> set x"
proof -
  let ?j = "joinpath (resolve wd b) t"
  from assms(1) have n: "\<not> has_nul ?j" and p: "p = resolve wd ?j"
    by (auto simp: safe_join_def path_resolve_def split: if_splits option.splits)
  have s: "slashes ?j > 0"
    by (simp add: joinpath_def resolve_def Let_def)
  from assms(2) p s have "x \<in> set (fold (\<lambda>c acc. if c = ascii ''..'' then butlast acc else acc @ [c])
                                   (parts ?j) [])"
    by (simp add: resolve_def)
  from fold_resolve_parts[OF this] n show ?thesis
    by (auto simp: has_nul_def list_ex_iff)
qed

lemma materialize_append:
  "materialize wd ow cs bt (pre @ post) st =
     (case materialize wd ow cs bt pre st of
        (Some e, st') \<Rightarrow> (Some e, st')
      | (None, st') \<Rightarrow> materialize wd ow cs bt post st')"
proof (induction pre arbitrary: st)
  case Nil
  show ?case by simp
next
  case (Cons x pre)
  obtain rel isd where x: "x = (rel, isd)" by (cases x)
  show ?case
    by (cases "safe_join wd bt rel") (simp_all add: x Cons.IH)
qed

lemma materialize_None_iff:
  "fst (materialize wd ow cs bt paths st) = None \<longleftrightarrow>
     (\<forall>(rel, isd) \<in> set paths. \<exists>p. safe_join wd bt rel = Inr p)"
proof (induction paths arbitrary: st)
  case Nil
  show ?case by simp
next
  case (Cons x paths)
  obtain rel isd where x: "x = (rel, isd)" by (cases x)
  show ?case
  proof (cases "safe_join wd bt rel")
    case (Inl e)
    then show ?thesis by (simp add: x)
  next
    case (Inr p)
    then show ?thesis using Cons.IH by (simp add: x)
  qed
qed

lemma materialize_keeps:
  "materialize wd False cs bt paths (fs, ls) = (r, fs', ls') \<Longrightarrow> node_at fs q = Some n \<Longrightarrow>
     node_at fs' q = Some n"
proof (induction paths arbitrary: fs ls)
  case Nil
  then show ?case by simp
next
  case (Cons x paths)
  obtain rel isd where x: "x = (rel, isd)" by (cases x)
  show ?case
  proof (cases "safe_join wd bt rel")
    case (Inl e)
    with Cons.prems show ?thesis by (simp add: x)
  next
    case (Inr p)
    obtain fs1 ls1 where s: "entry_step False cs rel isd p (fs, ls) = (fs1, ls1)" by force
    from entry_step_keeps[OF s Cons.prems(2)] have "node_at fs1 q = Some n" .
    moreover from Cons.prems(1) have "materialize wd False cs bt paths (fs1, ls1) = (r, fs', ls')"
      by (simp add: x Inr s)
    ultimately show ?thesis using Cons.IH by blast
  qed
qed

lemma materialize_keeps_dir:
  "materialize wd ow cs bt paths (fs, ls) = (r, fs', ls') \<Longrightarrow> node_at fs q = Some Dir \<Longrightarrow>
     node_at fs' q = Some Dir"
proof (induction paths arbitrary: fs ls)
  case Nil
  then show ?case by simp
next
  case (Cons x paths)
  obtain rel isd where x: "x = (rel, isd)" by (cases x)
  show ?case
  proof (cases "safe_join wd bt rel")
    case (Inl e)
    with Cons.prems show ?thesis by (simp add: x)
  next
    case (Inr p)
    obtain fs1 ls1 where s: "entry_step ow cs rel isd p (fs, ls) = (fs1, ls1)" by force
    from entry_step_keeps_dir[OF s Cons.prems(2)] have "node_at fs1 q = Some Dir" .
    moreover from Cons.prems(1) have "materialize wd ow cs bt paths (fs1, ls1) = (r, fs', ls')"
      by (simp add: x Inr s)
    ultimately show ?thesis using Cons.IH by blast
  qed
qed

lemma materialize_grows:
  "materialize wd ow cs bt paths (fs, ls) = (r, fs', ls') \<Longrightarrow>
     set (created ls) \<subseteq> set (created ls') \<and> set (skipped ls) \<subseteq> set (skipped ls') \<and>
     set (errors ls) \<subseteq> set (errors ls')"
proof (induction paths arbitrary: fs ls)
  case Nil
  then show ?case by simp
next
  case (Cons x paths)
  obtain rel isd where x: "x = (rel, isd)" by (cases x)
  show ?case
  proof (cases "safe_join wd bt rel")
    case (Inl e)
    with Cons.prems show ?thesis by (simp add: x)
  next
    case (Inr p)
    obtain fs1 ls1 where s: "entry_step ow cs rel isd p (fs, ls) = (fs1, ls1)" by force
    from Cons.prems(1) have "materialize wd ow cs bt paths (fs1, ls1) = (r, fs', ls')"
      by (simp add: x Inr s)
    from Cons.IH[OF this] entry_step_lists[OF s] show ?thesis by auto
  qed
qed

lemma materialize_skips_existing:
  "materialize wd False cs bt paths (fs, ls) = (None, fs', ls') \<Longrightarrow> (rel, False) \<in> set paths \<Longrightarrow>
     node_at fs (parts (entry_path wd bt rel)) \<noteq> None \<Longrightarrow>
     path_str (entry_path wd bt rel) \<in> set (skipped ls')"
proof (induction paths arbitrary: fs ls)
  case Nil
  then show ?case by simp
next
  case (Cons x paths)
  obtain rel1 isd1 where x: "x = (rel1, isd1)" by (cases x)
  show ?case
  proof (cases "safe_join wd bt rel1")
    case (Inl e)
    with Cons.prems show ?thesis by (simp add: x)
  next
    case (Inr p)
    obtain fs1 ls1 where s: "entry_step False cs rel1 isd1 p (fs, ls) = (fs1, ls1)" by force
    from Cons.prems(1) have m: "materialize wd False cs bt paths (fs1, ls1) = (None, fs', ls')"
      by (simp add: x Inr s)
    show ?thesis
    proof (cases "(rel1, isd1) = (rel, False)")
      case True
      with safe_join_Inr[OF Inr] have p: "p = entry_path wd bt rel" by simp
      from s True Cons.prems(3) have "ls1 = ls\<lparr>skipped := skipped ls @ [path_str p]\<rparr>"
        by (simp add: entry_step_skip p)
      with materialize_grows[OF m] p show ?thesis by auto
    next
      case False
      with Cons.prems(2) x have "(rel, False) \<in> set paths" by auto
      moreover from Cons.prems(3) obtain n where "node_at fs (parts (entry_path wd bt rel)) = Some n" by auto
      from entry_step_keeps[OF s this] have "node_at fs1 (parts (entry_path wd bt rel)) \<noteq> None" by simp
      ultimately show ?thesis using Cons.IH[OF m] by blast
    qed
  qed
qed

lemma materialize_dir_again:
  "materialize wd ow cs bt paths (fs, ls) = (None, fs', ls') \<Longrightarrow> (rel, True) \<in> set paths \<Longrightarrow>
     node_at fs (parts (entry_path wd bt rel)) = Some Dir \<Longrightarrow>
     path_str (entry_path wd bt rel) \<in> set (created ls')"
proof (induction paths arbitrary: fs ls)
  case Nil
  then show ?case by simp
next
  case (Cons x paths)
  obtain rel1 isd1 where x: "x = (rel1, isd1)" by (cases x)
  show ?case
  proof (cases "safe_join wd bt rel1")
    case (Inl e)
    with Cons.prems show ?thesis by (simp add: x)
  next
    case (Inr p)
    obtain fs1 ls1 where s: "entry_step ow cs rel1 isd1 p (fs, ls) = (fs1, ls1)" by force
    from Cons.prems(1) have m: "materialize wd ow cs bt paths (fs1, ls1) = (None, fs', ls')"
      by (simp add: x Inr s)
    show ?thesis
    proof (cases "(rel1, isd1) = (rel, True)")
      case True
      with safe_join_Inr[OF Inr] have p: "p = entry_path wd bt rel" by simp
      from s True Cons.prems(3) have "ls1 = ls\<lparr>created := created ls @ [path_str p]\<rparr>"
        by (simp add: entry_step_dir_again p)
      with materialize_grows[OF m] p show ?thesis by auto
    next
      case False
      with Cons.prems(2) x have "(rel, True) \<in> set paths" by auto
      moreover from entry_step_keeps_dir[OF s Cons.prems(3)]
      have "node_at fs1 (parts (entry_path wd bt rel)) = Some Dir" .
      ultimately show ?thesis using Cons.IH[OF m] by blast
    qed
  qed
qed

section \<open>Properties of the tool\<close>

lemma scaffold_live:
  assumes "prepare w fs rq = Inr (sel, bp, paths, cs, bt)" "\<not> dry_run rq"
    and "materialize (working_dir w) (overwrite rq) cs bt paths (fs, no_lists) = (r, fs', ls)"
  shows "snd (scaffold_project w fs rq) = fs'"
    and "r = Some e \<Longrightarrow> fst (scaffold_project w fs rq) = Inl e"
    and "r = None \<Longrightarrow> \<exists>res. fst (scaffold_project w fs rq) = Inr res \<and> created res = created ls \<and>
           skipped res = skipped ls \<and> errors res = errors ls \<and> \<not> is_dry_run res"
  using assms by (auto simp: scaffold_project_def no_lists_def split: option.splits)

lemma scaffold_live_result:
  assumes "scaffold_project w fs rq = (Inr res, fs')" "\<not> dry_run rq"
    and "prepare w fs rq = Inr (sel, bp, paths, cs, bt)"
  shows "\<exists>ls. materialize (working_dir w) (overwrite rq) cs bt paths (fs, no_lists) = (None, fs', ls)
          \<and> created res = created ls \<and> skipped res = skipped ls \<and> errors res = errors ls"
  using assms by (auto simp: scaffold_project_def no_lists_def split: option.splits prod.splits)

lemma scaffold_dry:
  "dry_run rq \<Longrightarrow> scaffold_project w fs rq = (Inr res, fs') \<Longrightarrow>
     fs' = fs \<and> is_dry_run res \<and> plan res \<noteq> None \<and> created res = [] \<and> skipped res = [] \<and> errors res = []"
  by (auto simp: scaffold_project_def split: sum.splits prod.splits)

text \<open>The plan of a dry run joins each entry to the target as it is written.\<close>

lemma dry_run_plan:
  assumes "prepare w fs rq = Inr (sel, bp, paths, cs, bt)" and "dry_run rq"
  shows "\<exists>res. scaffold_project w fs rq = (Inr res, fs) \<and>
           plan res = Some (map (\<lambda>(rel, isd). (path_str (joinpath bt rel),
                                               if isd then ascii ''dir'' else ascii ''file'')) paths)"
  using assms by (simp add: scaffold_project_def)

lemma materialize_mset:
  "materialize wd ow cs bt paths (fs, ls) = (None, fs', ls') \<Longrightarrow>
     mset (all_paths ls') = mset (all_paths ls) + mset (map (\<lambda>(rel, isd). path_str (entry_path wd bt rel)) paths)"
proof (induction paths arbitrary: fs ls)
  case Nil
  then show ?case by simp
next
  case (Cons x paths)
  obtain rel isd where x: "x = (rel, isd)" by (cases x)
  show ?case
  proof (cases "safe_join wd bt rel")
    case (Inl e)
    with Cons.prems show ?thesis by (simp add: x)
  next
    case (Inr p)
    obtain fs1 ls1 where s: "entry_step ow cs rel isd p (fs, ls) = (fs1, ls1)" by force
    from Cons.prems(1) have m: "materialize wd ow cs bt paths (fs1, ls1) = (None, fs', ls')"
      by (simp add: x Inr s)
    have "mset (all_paths ls1) = mset (all_paths ls) + {#path_str p#}"
      using entry_step_lists[OF s] by (auto simp: all_paths_def)
    with Cons.IH[OF m] safe_join_Inr[OF Inr] show ?thesis by (simp add: x)
  qed
qed

text \<open>Where a created path comes from, when nothing is overwritten.\<close>

lemma materialize_created_origin:
  "materialize wd False cs bt paths (fs, ls) = (r, fs', ls') \<Longrightarrow> a \<in> set (created ls') \<Longrightarrow>
     a \<in> set (created ls) \<or>
     (\<exists>rel isd. (rel, isd) \<in> set paths \<and> path_str (entry_path wd bt rel) = a \<and>
        (if isd then node_at fs' (parts (entry_path wd bt rel)) = Some Dir
         else node_at fs (parts (entry_path wd bt rel)) = None \<and>
              (\<exists>c. node_at fs' (parts (entry_path wd bt rel)) = Some (File c))))"
proof (induction paths arbitrary: fs ls)
  case Nil
  then show ?case by simp
next
  case (Cons x paths)
  obtain rel1 isd1 where x: "x = (rel1, isd1)" by (cases x)
  show ?case
  proof (cases "safe_join wd bt rel1")
    case (Inl e)
    with Cons.prems show ?thesis by (simp add: x)
  next
    case (Inr p)
    note p = safe_join_Inr[OF Inr]
    obtain fs1 ls1 where s: "entry_step False cs rel1 isd1 p (fs, ls) = (fs1, ls1)" by force
    from Cons.prems(1) have m: "materialize wd False cs bt paths (fs1, ls1) = (r, fs', ls')"
      by (simp add: x Inr s)
    from Cons.IH[OF m Cons.prems(2)] consider
      (old) "a \<in> set (created ls)" |
      (head) "a \<in> set (created ls1)" "a \<notin> set (created ls)" |
      (rest) rel isd where "(rel, isd) \<in> set paths" "path_str (entry_path wd bt rel) = a"
        "if isd then node_at fs' (parts (entry_path wd bt rel)) = Some Dir
         else node_at fs1 (parts (entry_path wd bt rel)) = None \<and>
              (\<exists>c. node_at fs' (parts (entry_path wd bt rel)) = Some (File c))"
      by blast
    then show ?thesis
    proof cases
      case old
      then show ?thesis by simp
    next
      case head
      then have ne: "created ls1 \<noteq> created ls" by auto
      from entry_step_created[OF s ne] head have a: "a = path_str p" by auto
      have "if isd1 then node_at fs' (parts p) = Some Dir
            else node_at fs (parts p) = None \<and> (\<exists>c. node_at fs' (parts p) = Some (File c))"
      proof (cases isd1)
        case True
        with entry_step_created[OF s ne] have "node_at fs1 (parts p) = Some Dir" by simp
        from materialize_keeps[OF m this] True show ?thesis by simp
      next
        case False
        with entry_step_created[OF s ne] have n: "node_at fs (parts p) = None"
          and f: "node_at fs1 (parts p) = Some (File (file_content cs rel1))" by auto
        from materialize_keeps[OF m f] n False show ?thesis by auto
      qed
      with a p show ?thesis unfolding x by (intro disjI2 exI[of _ rel1] exI[of _ isd1]) auto
    next
      case rest
      have "\<not> isd \<Longrightarrow> node_at fs (parts (entry_path wd bt rel)) = None"
      proof (rule ccontr)
        assume "\<not> isd" and "node_at fs (parts (entry_path wd bt rel)) \<noteq> None"
        then obtain n where "node_at fs (parts (entry_path wd bt rel)) = Some n" by auto
        from entry_step_keeps[OF s this] rest(3) \<open>\<not> isd\<close> show False by simp
      qed
      with rest show ?thesis unfolding x
        by (intro disjI2 exI[of _ rel] exI[of _ isd]) (auto split: if_splits)
    qed
  qed
qed

text \<open>Where the content of a file comes from.\<close>

lemma materialize_file_origin:
  "materialize wd ow cs bt paths (fs, ls) = (r, fs', ls') \<Longrightarrow> fs' q = Some (File c) \<Longrightarrow>
     fs q = Some (File c) \<or>
     (\<exists>rel. (rel, False) \<in> set paths \<and> parts (entry_path wd bt rel) = q \<and>
            c = written (file_content cs rel))"
proof (induction paths arbitrary: fs ls)
  case Nil
  then show ?case by simp
next
  case (Cons x paths)
  obtain rel1 isd1 where x: "x = (rel1, isd1)" by (cases x)
  show ?case
  proof (cases "safe_join wd bt rel1")
    case (Inl e)
    with Cons.prems show ?thesis by (simp add: x)
  next
    case (Inr p)
    note p = safe_join_Inr[OF Inr]
    obtain fs1 ls1 where s: "entry_step ow cs rel1 isd1 p (fs, ls) = (fs1, ls1)" by force
    from Cons.prems(1) have m: "materialize wd ow cs bt paths (fs1, ls1) = (r, fs', ls')"
      by (simp add: x Inr s)
    from Cons.IH[OF m Cons.prems(2)] show ?thesis
    proof
      assume f: "fs1 q = Some (File c)"
      from entry_step_effect[OF s, of q] f p show ?thesis unfolding x by auto
    next
      assume "\<exists>rel. (rel, False) \<in> set paths \<and> parts (entry_path wd bt rel) = q \<and>
                    c = written (file_content cs rel)"
      then show ?thesis unfolding x by auto
    qed
  qed
qed

text \<open>The outcome depends on the prompt through the parsed entries only.\<close>

lemma same_entries_same_outcome:
  assumes "mode rq = Json"
    and "json_loads w (prompt rq) = Some d1" and "json_loads w other = Some d2"
    and "parse_yaml_or_json (py_repr w) d1 = parse_yaml_or_json (py_repr w) d2"
  shows "scaffold_project w fs (rq\<lparr>prompt := other\<rparr>) = scaffold_project w fs rq"
proof -
  have "parse_prompt w Json other = parse_prompt w Json (prompt rq)"
    using assms(2-4) by (simp add: parse_prompt_def)
  then have "prepare w fs (rq\<lparr>prompt := other\<rparr>) = prepare w fs rq"
    using assms(1)
    by (simp add: prepare_def select_mode_def Let_def split: option.splits sum.splits prod.splits)
  then show ?thesis by (simp add: scaffold_project_def split: sum.splits prod.splits)
qed

section \<open>Path texts determine their parts\<close>

lemma split_from_no_sep:
  "sep \<notin> set x \<Longrightarrow> split_from sep cur (x @ sep # rest) = (cur @ x) # split_from sep [] rest"
  by (induction x arbitrary: cur) auto

lemma split_from_no_sep_end: "sep \<notin> set x \<Longrightarrow> split_from sep cur x = [cur @ x]"
  by (induction x arbitrary: cur) auto

lemma split_join_slash:
  "ps \<noteq> [] \<Longrightarrow> \<forall>x\<in>set ps. slash \<notin> set x \<Longrightarrow> split_slash (join_slash ps) = ps"
proof (induction ps rule: join_slash.induct)
  case 1
  then show ?case by simp
next
  case (2 x)
  then show ?case by (simp add: split_slash_def split_from_no_sep_end)
next
  case (3 x y ys)
  then show ?case by (simp add: split_slash_def split_from_no_sep)
qed

lemma join_slash_empty: "good_parts ps \<Longrightarrow> join_slash ps = [] \<Longrightarrow> ps = []"
  by (induction ps rule: join_slash.induct) (auto simp: good_parts_def)

lemma join_slash_inj:
  assumes "good_parts ps" "good_parts qs" "join_slash ps = join_slash qs"
  shows "ps = qs"
proof (cases "ps = [] \<or> qs = []")
  case True
  with assms join_slash_empty[of ps] join_slash_empty[of qs] show ?thesis by auto
next
  case False
  from assms(1) False have "split_slash (join_slash ps) = ps"
    by (intro split_join_slash) (auto simp: good_parts_def list_all_iff)
  moreover from assms(2) False have "split_slash (join_slash qs) = qs"
    by (intro split_join_slash) (auto simp: good_parts_def list_all_iff)
  ultimately show ?thesis using assms(3) by metis
qed

lemma split_from_free:
  "sep \<notin> set cur \<Longrightarrow> \<forall>x\<in>set (split_from sep cur s). sep \<notin> set x"
proof (induction s arbitrary: cur)
  case Nil
  then show ?case by simp
next
  case (Cons c s)
  show ?case
  proof (cases "c = sep")
    case True
    with Cons.IH[of "[]"] Cons.prems show ?thesis by simp
  next
    case False
    with Cons.IH[of "cur @ [c]"] Cons.prems show ?thesis by simp
  qed
qed

lemma good_parts_path_of: "good_parts (parts (path_of s))"
  using split_from_free[of slash "[]" s]
  by (auto simp: good_parts_def path_of_def list_all_iff split_slash_def)

lemma good_parts_butlast: "good_parts ps \<Longrightarrow> good_parts (butlast ps)"
  by (auto simp: good_parts_def list_all_iff dest: in_set_butlastD)

lemma good_parts_fold:
  "good_parts acc \<Longrightarrow> good_parts cs \<Longrightarrow>
     good_parts (fold (\<lambda>c acc. if c = ascii ''..'' then butlast acc else acc @ [c]) cs acc)"
proof (induction cs arbitrary: acc)
  case Nil
  then show ?case by simp
next
  case (Cons c cs)
  from Cons.prems have "good_parts (if c = ascii ''..'' then butlast acc else acc @ [c])"
    by (auto simp: good_parts_butlast) (auto simp: good_parts_def)
  moreover from Cons.prems have "good_parts cs" by (simp add: good_parts_def)
  ultimately show ?case using Cons.IH by simp
qed

lemma good_parts_resolve:
  "good_parts wd \<Longrightarrow> good_parts (parts p) \<Longrightarrow> good_parts (parts (resolve wd p))"
  by (auto simp: resolve_def intro!: good_parts_fold) (simp add: good_parts_def)

lemma good_parts_joinpath: "good_parts (parts b) \<Longrightarrow> good_parts (parts (joinpath b t))"
  using good_parts_path_of[of t] by (auto simp: joinpath_def Let_def good_parts_def)

lemma good_parts_working_dir: "good_parts (working_dir w)"
  by (simp add: working_dir_def good_parts_path_of)

lemma good_parts_entry_path:
  "good_parts wd \<Longrightarrow> good_parts (parts b) \<Longrightarrow> good_parts (parts (entry_path wd b rel))"
  by (simp add: entry_path_def good_parts_resolve good_parts_joinpath)

lemma entry_path_parts_inj:
  assumes "good_parts wd" "good_parts (parts b)"
    and "path_str (entry_path wd b r1) = path_str (entry_path wd b r2)"
  shows "parts (entry_path wd b r1) = parts (entry_path wd b r2)"
proof -
  have s: "slashes (entry_path wd b r) = 1" for r by (simp add: entry_path_def resolve_def)
  have "path_str (entry_path wd b r) = [slash] @ join_slash (parts (entry_path wd b r))" for r
    by (simp add: path_str_def s)
  with assms(3) have "join_slash (parts (entry_path wd b r1)) = join_slash (parts (entry_path wd b r2))"
    by simp
  with assms(1,2) show ?thesis by (intro join_slash_inj good_parts_entry_path)
qed

lemma prepare_good_target:
  assumes "prepare w fs rq = Inr (sel, bp, paths, cs, bt)"
  shows "good_parts (parts bt)"
proof -
  from assms obtain b t where "safe_join (working_dir w) (path_of b) t = Inr bt"
    by (auto simp: prepare_def Let_def split: option.splits if_splits sum.splits prod.splits)
  from safe_join_Inr[OF this] show ?thesis
    by (simp add: good_parts_entry_path good_parts_working_dir good_parts_path_of)
qed


text \<open>What comes before the loop reads the file system only to see that the base exists.\<close>

lemma stat_walk_mono:
  assumes "\<And>q n. node_at fs q = Some n \<Longrightarrow> node_at fs' q = Some n"
  shows "stat_walk fs cur cs = Some x \<Longrightarrow> stat_walk fs' cur cs = Some x"
proof (induction cs arbitrary: cur)
  case Nil
  then show ?case using assms[of cur] by (auto split: if_splits)
next
  case (Cons c cs)
  from Cons.prems have d: "node_at fs cur = Some Dir"
    and w: "stat_walk fs (if c = ascii ''..'' then butlast cur else cur @ [c]) cs = Some x"
    by (auto split: if_splits)
  from assms[OF d] Cons.IH[OF w] show ?case by simp
qed

lemma prepare_mono:
  assumes "prepare w fs rq = Inr x" and "\<And>q n. node_at fs q = Some n \<Longrightarrow> node_at fs' q = Some n"
  shows "prepare w fs' rq = Inr x"
proof -
  from assms(1) obtain b where b: "environ_base w = Some b" "b \<noteq> []"
    "path_exists fs (working_dir w) (path_of b)"
    by (auto simp: prepare_def Let_def split: option.splits if_splits)
  with stat_walk_mono[of fs fs', OF assms(2)] have "path_exists fs' (working_dir w) (path_of b)"
    by (auto simp: path_exists_def)
  with assms(1) b show ?thesis
    by (simp add: prepare_def Let_def)
qed

text \<open>
  A file that an entry has created holds the content of that entry at the end of the
  loop, when no other entry lands on its path.
\<close>

lemma materialize_untouched:
  "materialize wd ow cs bt paths (fs, ls) = (r, fs', ls') \<Longrightarrow> fs q = Some n \<Longrightarrow>
   (\<And>rel isd. (rel, isd) \<in> set paths \<Longrightarrow> parts (entry_path wd bt rel) \<noteq> q) \<Longrightarrow>
     fs' q = Some n"
proof (induction paths arbitrary: fs ls)
  case Nil
  then show ?case by simp
next
  case (Cons x paths)
  obtain rel1 isd1 where x: "x = (rel1, isd1)" by (cases x)
  show ?case
  proof (cases "safe_join wd bt rel1")
    case (Inl e)
    with Cons.prems show ?thesis by (simp add: x)
  next
    case (Inr p)
    note p = safe_join_Inr[OF Inr]
    obtain fs1 ls1 where s: "entry_step ow cs rel1 isd1 p (fs, ls) = (fs1, ls1)" by force
    from Cons.prems(1) have m: "materialize wd ow cs bt paths (fs1, ls1) = (r, fs', ls')"
      by (simp add: x Inr s)
    from Cons.prems(3)[of rel1 isd1] x p have "q \<noteq> parts p" by auto
    with entry_step_effect[OF s, of q] Cons.prems(2) have "fs1 q = Some n" by auto
    moreover have "parts (entry_path wd bt rel) \<noteq> q" if "(rel, isd) \<in> set paths" for rel isd
      using Cons.prems(3)[of rel isd] that by simp
    ultimately show ?thesis using Cons.IH[OF m] by blast
  qed
qed

lemma materialize_created_from:
  "materialize wd ow cs bt paths (fs, ls) = (r, fs', ls') \<Longrightarrow> a \<in> set (created ls') \<Longrightarrow>
     a \<in> set (created ls) \<or> (\<exists>rel isd. (rel, isd) \<in> set paths \<and> path_str (entry_path wd bt rel) = a)"
proof (induction paths arbitrary: fs ls)
  case Nil
  then show ?case by simp
next
  case (Cons x paths)
  obtain rel1 isd1 where x: "x = (rel1, isd1)" by (cases x)
  show ?case
  proof (cases "safe_join wd bt rel1")
    case (Inl e)
    with Cons.prems show ?thesis by (simp add: x)
  next
    case (Inr p)
    note p = safe_join_Inr[OF Inr]
    obtain fs1 ls1 where s: "entry_step ow cs rel1 isd1 p (fs, ls) = (fs1, ls1)" by force
    from Cons.prems(1) have m: "materialize wd ow cs bt paths (fs1, ls1) = (r, fs', ls')"
      by (simp add: x Inr s)
    from Cons.IH[OF m Cons.prems(2)] entry_step_lists[OF s] p show ?thesis
      unfolding x by auto
  qed
qed

lemma materialize_created_content:
  assumes "good_parts wd" "good_parts (parts bt)"
  shows "distinct (map (\<lambda>(rel, isd). parts (entry_path wd bt rel)) paths) \<Longrightarrow>
         (q, False) \<in> set paths \<Longrightarrow>
         materialize wd ow cs bt paths (fs, ls) = (r, fs', ls') \<Longrightarrow>
         path_str (entry_path wd bt q) \<in> set (created ls') \<Longrightarrow>
         path_str (entry_path wd bt q) \<notin> set (created ls) \<Longrightarrow>
           node_at fs' (parts (entry_path wd bt q)) = Some (File (file_content cs q)) \<and>
           encodable (file_content cs q)"
proof (induction paths arbitrary: fs ls)
  case Nil
  then show ?case by simp
next
  case (Cons x paths)
  let ?P = "\<lambda>rel. entry_path wd bt rel"
  obtain rel1 isd1 where x: "x = (rel1, isd1)" by (cases x)
  from Cons.prems(1) x have d: "distinct (map (\<lambda>(rel, isd). parts (?P rel)) paths)"
    and fresh: "\<And>rel isd. (rel, isd) \<in> set paths \<Longrightarrow> parts (?P rel) \<noteq> parts (?P rel1)"
    by (auto simp: image_iff)
  show ?case
  proof (cases "safe_join wd bt rel1")
    case (Inl e)
    with Cons.prems show ?thesis by (simp add: x)
  next
    case (Inr p)
    note p = safe_join_Inr[OF Inr]
    obtain fs1 ls1 where s: "entry_step ow cs rel1 isd1 p (fs, ls) = (fs1, ls1)" by force
    from Cons.prems(3) have m: "materialize wd ow cs bt paths (fs1, ls1) = (r, fs', ls')"
      by (simp add: x Inr s)
    show ?thesis
    proof (cases "(q, False) = x")
      case True
      with x have q: "rel1 = q" "isd1 = False" by auto
      have "created ls1 \<noteq> created ls"
      proof
        assume "created ls1 = created ls"
        with materialize_created_from[OF m Cons.prems(4)] Cons.prems(5) obtain rel isd where
          ri: "(rel, isd) \<in> set paths" "path_str (?P rel) = path_str (?P q)" by auto
        from entry_path_parts_inj[OF assms ri(2)] fresh[OF ri(1)] q show False by simp
      qed
      from entry_step_created[OF s this] q p
      have n: "node_at fs1 (parts (?P q)) = Some (File (file_content cs q))"
        and e: "encodable (file_content cs q)" by auto
      from n have ne: "parts (?P q) \<noteq> []" and "fs1 (parts (?P q)) = Some (File (file_content cs q))"
        by (auto simp: node_at_def split: if_splits)
      from materialize_untouched[OF m this(2)] fresh q
      have "fs' (parts (?P q)) = Some (File (file_content cs q))" by blast
      with ne e show ?thesis by (simp add: node_at_def)
    next
      case False
      with Cons.prems(2) have qp: "(q, False) \<in> set paths" by auto
      have "path_str (?P q) \<notin> set (created ls1)"
      proof
        assume a: "path_str (?P q) \<in> set (created ls1)"
        with Cons.prems(5) entry_step_lists[OF s] p have "path_str (?P rel1) = path_str (?P q)"
          by auto
        from entry_path_parts_inj[OF assms this] fresh[OF qp] show False by simp
      qed
      from Cons.IH[OF d qp m Cons.prems(4) this] show ?thesis .
    qed
  qed
qed

section \<open>Properties of the structured-data parser\<close>

lemma parse_nested:
  "nested_mapping data = Some m \<Longrightarrow> parse_yaml_or_json repr data = walk repr [] m"
  by (auto simp: nested_mapping_def parse_yaml_or_json_def split: pyval.splits if_splits option.splits)

lemma walk_leaf:
  "walk repr pfx m = Inr es \<Longrightarrow> (q, v) \<in> set (leaf_values repr pfx m) \<Longrightarrow>
     (q, False, if v = PNone then None else Some (py_str repr v)) \<in> set es"
proof (induction repr pfx m arbitrary: es rule: walk.induct)
  case (1 repr pfx)
  then show ?case by simp
next
  case (2 repr pfx k v0 rest)
  from "2.prems"(1) obtain p where p: "key_path repr pfx k = Inr p"
    by (auto split: sum.splits)
  from "2.prems"(1) p obtain after where a: "walk repr pfx rest = Inr after"
    by (auto split: sum.splits pyval.splits)
  have tail: "(q, False, if v = PNone then None else Some (py_str repr v)) \<in> set after"
    if r: "(q, v) \<in> set (leaf_values repr pfx rest)"
  proof (cases v0)
    case PNone
    from "2.IH"(1)[OF p PNone a r] show ?thesis .
  next
    case (PStr x)
    from "2.IH"(2)[OF p PStr a r] show ?thesis .
  next
    case (PScalar x)
    from "2.IH"(3)[OF p PScalar a r] show ?thesis .
  next
    case (PList x)
    from "2.IH"(4)[OF p PList a r] show ?thesis .
  next
    case (PDict m')
    with "2.prems"(1) p obtain below where b: "walk repr p m' = Inr below"
      by (auto split: sum.splits)
    from "2.IH"(6)[OF p PDict b a r] show ?thesis .
  qed
  show ?case
  proof (cases v0)
    case (PDict m')
    with "2.prems"(1) p a obtain below where b: "walk repr p m' = Inr below"
      and es: "es = add p True None # below @ after"
      by (auto split: sum.splits)
    from "2.prems"(2) p PDict
    have "(q, v) \<in> set (leaf_values repr p m') \<or> (q, v) \<in> set (leaf_values repr pfx rest)"
      by simp
    with "2.IH"(5)[OF p PDict b] tail es show ?thesis by auto
  next
    case PNone
    with "2.prems" p a tail show ?thesis by (auto simp: add_def)
  next
    case (PStr x)
    with "2.prems" p a tail show ?thesis by (auto simp: add_def)
  next
    case (PScalar x)
    with "2.prems" p a tail show ?thesis by (auto simp: add_def)
  next
    case (PList x)
    with "2.prems" p a tail show ?thesis by (auto simp: add_def)
  qed
qed

lemma collect_paths:
  "fst (collect es acc) = fst acc @ map (\<lambda>(p, isd, c). (p, isd)) es"
  by (induction es arbitrary: acc) auto

lemma collect_other:
  "q \<notin> fst ` set es \<Longrightarrow> snd (collect es acc) q = snd acc q"
  by (induction es arbitrary: acc) auto

lemma collect_content:
  "distinct (map fst es) \<Longrightarrow> (q, False, c) \<in> set es \<Longrightarrow> snd (collect es acc) q = Some c"
proof (induction es arbitrary: acc)
  case Nil
  then show ?case by simp
next
  case (Cons e es)
  obtain p isd c1 where e: "e = (p, isd, c1)" by (cases e)
  show ?case
  proof (cases "e = (q, False, c)")
    case True
    with Cons.prems(1) have "q \<notin> fst ` set es" by auto
    from collect_other[OF this] True show ?thesis by simp
  next
    case False
    with Cons.prems have "(q, False, c) \<in> set es" "distinct (map fst es)" by auto
    with Cons.IH show ?thesis by (simp add: e)
  qed
qed

lemma prepare_structured:
  assumes "prepare w fs rq = Inr (sel, bp, paths, cs, bt)"
    and "sel = Json \<and> json_loads w (prompt rq) = Some data \<or>
         sel = Yaml \<and> yaml_safe_load w (prompt rq) = Some data"
  shows "\<exists>es. parse_yaml_or_json (py_repr w) data = Inr es \<and> (paths, cs) = collect es ([], Map.empty)"
proof -
  from assms(1) obtain b where "parse_prompt w sel (prompt rq) = Inr (paths, cs)"
    by (auto simp: prepare_def Let_def split: option.splits if_splits sum.splits prod.splits)
  with assms(2) show ?thesis
    by (auto simp: parse_prompt_def split: option.splits if_splits sum.splits)
qed




















section \<open>Outcomes that do not depend on the order\<close>




lemma tree_shaped_ancestors:
  "tree_shaped fs \<Longrightarrow> node_at fs q \<noteq> None \<Longrightarrow> strict_prefix r q \<Longrightarrow> node_at fs r = Some Dir"
proof (induction q rule: rev_induct)
  case Nil
  then show ?case by simp
next
  case (snoc y ys)
  from snoc.prems(2) have "fs (ys @ [y]) \<noteq> None" by (simp add: node_at_def)
  with snoc.prems(1)[unfolded tree_shaped_def, rule_format, of "ys @ [y]"]
  have d: "node_at fs ys = Some Dir" by simp
  from snoc.prems(3) have "r = ys \<or> strict_prefix r ys"
    by (metis prefix_snoc strict_prefix_def prefix_order.less_le)
  with d snoc.IH[OF snoc.prems(1)] show ?case by auto
qed











text \<open>
  On a tree-shaped file system the walk along a path without \<open>..\<close> parts ends at a node
  exactly when the parts hold a node: for the path of an entry, \<^verbatim>\<open>Path.exists()\<close> is the
  test that the loop body makes.
\<close>

lemma stat_walk_plain:
  assumes "tree_shaped fs" and "ascii ''..'' \<notin> set cs"
  shows "stat_walk fs cur cs \<noteq> None \<longleftrightarrow> node_at fs (cur @ cs) \<noteq> None"
  using assms(2)
proof (induction cs arbitrary: cur)
  case Nil
  then show ?case by simp
next
  case (Cons c cs)
  from Cons.prems have c: "c \<noteq> ascii ''..''" and cs: "ascii ''..'' \<notin> set cs" by auto
  from Cons.IH[OF cs, of "cur @ [c]"]
  have ih: "stat_walk fs (cur @ [c]) cs \<noteq> None \<longleftrightarrow> node_at fs (cur @ c # cs) \<noteq> None" by simp
  have "node_at fs cur = Some Dir" if "node_at fs (cur @ c # cs) \<noteq> None"
    by (rule tree_shaped_ancestors[OF assms(1) that]) (simp add: strict_prefix_def)
  with ih c show ?case by auto
qed

lemma entry_exists:
  assumes "tree_shaped fs" and "safe_join wd b t = Inr p"
  shows "path_exists fs wd' p \<longleftrightarrow> node_at fs (parts p) \<noteq> None"
proof -
  from safe_join_parts[OF assms(2)] have n: "\<not> has_nul p" and d: "ascii ''..'' \<notin> set (parts p)"
    by (auto simp: has_nul_def list_ex_iff)
  from safe_join_Inr[OF assms(2)] have "slashes p > 0" by (simp add: entry_path_def resolve_def)
  with n stat_walk_plain[OF assms(1) d, of "[]"] show ?thesis by (simp add: path_exists_def)
qed



section \<open>Evaluation\<close>

lemmas text_defs = ascii_def strip_def lstrip_def rstrip_def is_space_def is_linebreak_def splitlines_def
  lstrip_chars_def rstrip_chars_def startswith_def endswith_def slash_def split_slash_def
lemmas tree_defs = BOX_CHARS_def starts_connector_def sub_connector_def replace_char_def leading_units_def
  tree_item_def parse_ascii_tree_def collapse_tree_def tree_paths_def
lemmas path_defs = path_of_def path_str_def joinpath_def resolve_def node_at_def has_nul_def
  path_resolve_def path_exists_def safe_join_def
  working_dir_def entry_path_def
lemmas fs_defs = os_mkdir_def mkdir_exist_ok_def mkdir_parents.simps open_w_def open_write_def
  encodable_def entry_step_def
  file_content_def default_snippet_def DEFAULT_SNIPPETS_def basename_def
lemmas example_defs = example_world_def example_fs_def tree_request_def json_request_def base_dir_def
  target_dir_def live_result_def no_lists_def

lemma example1_items:
  "parse_ascii_tree example1_prompt =
     [(0, ascii ''README.md'', False), (0, ascii ''src'', True), (1, ascii ''main.py'', False)]"
  by (simp add: example1_prompt_def text_defs tree_defs)

lemma example1_paths:
  "tree_paths example1_prompt =
     [(ascii ''README.md'', False), (ascii ''src/src'', True), (ascii ''src/main.py'', False)]"
  using example1_items by (simp add: tree_paths_def collapse_tree_def ascii_def slash_def)

lemma escaping_paths: "tree_paths escaping_prompt = [(ascii ''a'', False), (ascii ''../../x'', False)]"
  by (simp add: escaping_prompt_def text_defs tree_defs)

lemma passwd_paths: "tree_paths passwd_prompt = [(ascii ''../../etc/passwd'', False)]"
  by (simp add: passwd_prompt_def text_defs tree_defs)

lemma twice_paths: "tree_paths twice_prompt = [(ascii ''a'', False), (ascii ''a'', False)]"
  by (simp add: twice_prompt_def text_defs tree_defs)

lemma file_then_dir_paths: "tree_paths file_then_dir_prompt = [(ascii ''a'', False), (ascii ''a/a'', True)]"
  by (simp add: file_then_dir_prompt_def text_defs tree_defs)

lemma file_and_dir_paths: "tree_paths file_and_dir_prompt = [(ascii ''a'', False), (ascii ''d/d'', True)]"
  by (simp add: file_and_dir_prompt_def text_defs tree_defs)

lemma single_paths: "tree_paths (ascii ''a'') = [(ascii ''a'', False)]"
  by (simp add: text_defs tree_defs)

lemma three_lists_paths:
  "tree_paths three_lists_prompt = [(ascii ''a'', False), (ascii ''c'', False), (ascii ''c/c'', True)]"
  by (simp add: three_lists_prompt_def text_defs tree_defs)

lemma prepare_tree:
  "prepare example_world example_fs (tree_request text dry) =
     Inr (Tree, base_dir, tree_paths text, Map.empty, target_dir)"
  by (simp add: prepare_def example_defs select_mode_def parse_prompt_def path_defs text_defs)

lemma prepare_tree_with_dir:
  "prepare example_world example_fs_with_dir (tree_request text dry) =
     Inr (Tree, base_dir, tree_paths text, Map.empty, target_dir)"
  by (simp add: prepare_def example_defs example_fs_with_dir_def select_mode_def parse_prompt_def
        path_defs text_defs)

lemmas json_defs = example_json_loads_def nested_text_def nested_data_def flat_text_def flat_data_def
  nested_dir_text_def nested_dir_data_def flat_dir_text_def flat_dir_data_def
  surrogate_text_def surrogate_data_def same_path_text_def same_path_data_def

lemmas parser_defs = parse_yaml_or_json_def dict_get_def key_path_def add_def flat_entry_def py_str_def
  is_dir_type_def ascii_lower_def example_repr_def nested_mapping_def

lemma pair_of_fst: "fst x = a \<Longrightarrow> x = (a, snd x)"
  by (cases x) simp

lemma example1_result:
  "fst (scaffold_project example_world example_fs (tree_request example1_prompt False)) =
     Inr (live_result Tree [ascii ''/b/t/README.md'', ascii ''/b/t/src/src'', ascii ''/b/t/src/main.py''] [] [])"
  using example1_paths
  by (simp add: scaffold_project_def prepare_tree)
     (simp add: example_defs path_defs text_defs fs_defs)

lemma single_result:
  "fst (scaffold_project example_world example_fs (tree_request (ascii ''a'') False)) =
     Inr (live_result Tree [ascii ''/b/t/a''] [] [])"
  using single_paths
  by (simp add: scaffold_project_def prepare_tree)
     (simp add: example_defs path_defs text_defs fs_defs Let_def)

lemma file_and_dir_result:
  "fst (scaffold_project example_world example_fs (tree_request file_and_dir_prompt False)) =
     Inr (live_result Tree [ascii ''/b/t/a'', ascii ''/b/t/d/d''] [] [])"
  using file_and_dir_paths
  by (simp add: scaffold_project_def prepare_tree)
     (simp add: example_defs path_defs text_defs fs_defs Let_def)

lemma with_dir_result:
  "fst (scaffold_project example_world example_fs_with_dir (tree_request (ascii ''a'') False)) =
     Inr (live_result Tree [] [ascii ''/b/t/a''] [])"
  using single_paths
  by (simp add: scaffold_project_def prepare_tree_with_dir)
     (simp add: example_defs example_fs_with_dir_def path_defs text_defs fs_defs Let_def)

lemma loads_nested: "json_loads example_world nested_text = Some nested_data"
  and loads_flat: "json_loads example_world flat_text = Some flat_data"
  and loads_nested_dir: "json_loads example_world nested_dir_text = Some nested_dir_data"
  and loads_flat_dir: "json_loads example_world flat_dir_text = Some flat_dir_data"
  and loads_surrogate: "json_loads example_world surrogate_text = Some surrogate_data"
  and loads_same_path: "json_loads example_world same_path_text = Some same_path_data"
  by (simp_all add: example_world_def example_json_loads_def nested_text_def flat_text_def
        nested_dir_text_def flat_dir_text_def surrogate_text_def same_path_text_def ascii_def)

lemma parse_nested_data:
  "parse_yaml_or_json example_repr nested_data =
     Inr [(ascii ''README.md'', False, None), (ascii ''n.txt'', False, Some (ascii ''hi''))]"
  by (simp add: nested_data_def parser_defs text_defs)

lemma parse_flat_data:
  "parse_yaml_or_json example_repr flat_data =
     Inr [(ascii ''n.txt'', False, Some (ascii ''hi'')), (ascii ''README.md'', False, None)]"
  by (simp add: flat_data_def parser_defs text_defs)



lemma parse_surrogate_data:
  "parse_yaml_or_json example_repr surrogate_data = Inr [(ascii ''a'', False, Some [55296])]"
  by (simp add: surrogate_data_def parser_defs text_defs)

lemma prepare_json_request:
  "json_loads example_world text = Some data \<Longrightarrow> parse_yaml_or_json example_repr data = Inr es \<Longrightarrow>
   prepare example_world example_fs (json_request text) =
     Inr (Json, base_dir, fst (collect es ([], Map.empty)), snd (collect es ([], Map.empty)), target_dir)"
  by (simp add: prepare_def select_mode_def parse_prompt_def example_defs path_defs text_defs
        case_prod_unfold Let_def)

lemma prepare_nested:
  "prepare example_world example_fs (json_request nested_text) =
     Inr (Json, base_dir, [(ascii ''README.md'', False), (ascii ''n.txt'', False)], nested_contents, target_dir)"
  by (simp add: prepare_json_request[OF loads_nested parse_nested_data] nested_contents_def)

lemma nested_result:
  "fst (scaffold_project example_world example_fs (json_request nested_text)) =
     Inr (live_result Json [ascii ''/b/t/README.md'', ascii ''/b/t/n.txt''] [] [])"
  by (simp add: scaffold_project_def prepare_nested)
     (simp add: example_defs nested_contents_def path_defs text_defs fs_defs Let_def)

lemma nested_readme:
  "snd (scaffold_project example_world example_fs (json_request nested_text))
     [ascii ''b'', ascii ''t'', ascii ''README.md''] =
   Some (File (ascii ''# Project'' @ [10, 10] @ ascii ''Describe your project here.'' @ [10]))"
  by (simp add: scaffold_project_def prepare_nested)
     (simp add: example_defs nested_contents_def path_defs text_defs fs_defs Let_def)

lemma prepare_flat:
  "prepare example_world example_fs (json_request flat_text) =
     Inr (Json, base_dir, [(ascii ''n.txt'', False), (ascii ''README.md'', False)], flat_contents, target_dir)"
  by (simp add: prepare_json_request[OF loads_flat parse_flat_data] flat_contents_def)

lemma flat_result:
  "fst (scaffold_project example_world example_fs (json_request flat_text)) =
     Inr (live_result Json [ascii ''/b/t/n.txt'', ascii ''/b/t/README.md''] [] [])"
  by (simp add: scaffold_project_def prepare_flat)
     (simp add: example_defs flat_contents_def path_defs text_defs fs_defs Let_def)

text \<open>
  Two keys of a nested mapping can give the same path; the file then holds the content
  of the later key, also when the earlier key, whose entry writes it, is null.
\<close>

lemma same_path_twice_takes_last_content:
  "parse_yaml_or_json example_repr same_path_data =
     Inr [(ascii ''a'', False, None), (ascii ''a'', False, Some (ascii ''x''))] \<and>
   fst (scaffold_project example_world example_fs (json_request same_path_text)) =
     Inr (live_result Json [ascii ''/b/t/a''] [ascii ''/b/t/a''] []) \<and>
   snd (scaffold_project example_world example_fs (json_request same_path_text))
     [ascii ''b'', ascii ''t'', ascii ''a''] = Some (File (ascii ''x''))"
proof -
  have p: "parse_yaml_or_json example_repr same_path_data =
     Inr [(ascii ''a'', False, None), (ascii ''a'', False, Some (ascii ''x''))]"
    by (simp add: same_path_data_def parser_defs text_defs)
  have q: "prepare example_world example_fs (json_request same_path_text) =
     Inr (Json, base_dir, [(ascii ''a'', False), (ascii ''a'', False)],
          [ascii ''a'' \<mapsto> Some (ascii ''x'')], target_dir)"
    by (simp add: prepare_json_request[OF loads_same_path p])
  have "fst (scaffold_project example_world example_fs (json_request same_path_text)) =
     Inr (live_result Json [ascii ''/b/t/a''] [ascii ''/b/t/a''] [])"
    by (simp add: scaffold_project_def q)
       (simp add: example_defs path_defs text_defs fs_defs Let_def)
  moreover have "snd (scaffold_project example_world example_fs (json_request same_path_text))
     [ascii ''b'', ascii ''t'', ascii ''a''] = Some (File (ascii ''x''))"
    by (simp add: scaffold_project_def q)
       (simp add: example_defs path_defs text_defs fs_defs Let_def)
  ultimately show ?thesis using p by simp
qed


lemma three_lists_result:
  "fst (scaffold_project example_world example_fs_with_dir (tree_request three_lists_prompt False)) =
     Inr (live_result Tree [ascii ''/b/t/c''] [ascii ''/b/t/a''] [(ascii ''/b/t/c/c'', NotADirectoryError)])"
  using three_lists_paths
  by (simp add: scaffold_project_def prepare_tree_with_dir)
     (simp add: example_defs example_fs_with_dir_def path_defs text_defs fs_defs Let_def)





text \<open>
  A base that leads through a directory that is not there does not exist, although its
  normal form does; and an entry with a NUL in its name ends the request.
\<close>

lemma base_through_missing_directory:
  "prepare (example_world\<lparr>environ_base := Some (ascii ''/b/nox/..'')\<rparr>) example_fs
     (tree_request (ascii ''a'') False) = Inl (BaseMissing (ascii ''/b/nox/..''))"
  by (simp add: prepare_def example_defs path_defs text_defs)

lemma nul_in_entry_ends_request:
  "scaffold_project example_world example_fs (tree_request [97, 0] False) = (Inl ValueError, example_fs)"
proof -
  have "tree_paths [97, 0] = [([97, 0], False)]"
    by (simp add: text_defs tree_defs)
  then show ?thesis
    by (simp add: scaffold_project_def prepare_tree)
       (simp add: example_defs path_defs text_defs)
qed

text \<open>
  A content that cannot be encoded: the file is opened, the write fails, and the run
  records the path in \<^verbatim>\<open>errors\<close> and leaves the file empty.
\<close>

lemma unencodable_content_leaves_empty_file:
  "fst (scaffold_project example_world example_fs (json_request surrogate_text)) =
     Inr (live_result Json [] [] [(ascii ''/b/t/a'', UnicodeEncodeError)]) \<and>
   snd (scaffold_project example_world example_fs (json_request surrogate_text))
     [ascii ''b'', ascii ''t'', ascii ''a''] = Some (File [])"
proof -
  have q: "prepare example_world example_fs (json_request surrogate_text) =
     Inr (Json, base_dir, [(ascii ''a'', False)], [ascii ''a'' \<mapsto> Some [55296]], target_dir)"
    by (simp add: prepare_json_request[OF loads_surrogate parse_surrogate_data])
  have "fst (scaffold_project example_world example_fs (json_request surrogate_text)) =
     Inr (live_result Json [] [] [(ascii ''/b/t/a'', UnicodeEncodeError)])"
    by (simp add: scaffold_project_def q)
       (simp add: example_defs path_defs text_defs fs_defs Let_def)
  moreover have "snd (scaffold_project example_world example_fs (json_request surrogate_text))
     [ascii ''b'', ascii ''t'', ascii ''a''] = Some (File [])"
    by (simp add: scaffold_project_def q)
       (simp add: example_defs path_defs text_defs fs_defs Let_def)
  ultimately show ?thesis by simp
qed

section \<open>The claims\<close>

subsection \<open>C1\<close>

text \<open>
  Claim C1. For the tree diagram \<open>app/\<close>, \<open>README.md\<close>, \<open>src/\<close>, \<open>main.py\<close> (the last one
  indented below \<open>src/\<close>), \<^verbatim>\<open>parse_ascii_tree\<close> skips the root label and yields
  \<open>README.md\<close> (a file, depth 0), \<open>src\<close> (a directory, depth 0) and \<open>main.py\<close> (a file,
  depth 1). \<^verbatim>\<open>collapse_tree\<close> then gives the directory the relative path \<open>src/src\<close> and
  not \<open>src\<close>: the name of a directory is on the stack when the stack is joined with the
  name. The live run against a target that does not exist yet records two files and one
  directory in \<^verbatim>\<open>created\<close> and nothing in \<^verbatim>\<open>skipped\<close> and \<^verbatim>\<open>errors\<close>; the directory it
  records is \<open>/b/t/src/src\<close>.
\<close>

theorem C1_tree_example_doubles_directory:
  "parse_ascii_tree example1_prompt =
     [(0, ascii ''README.md'', False), (0, ascii ''src'', True), (1, ascii ''main.py'', False)] \<and>
   collapse_tree (parse_ascii_tree example1_prompt) =
     [(ascii ''README.md'', False), (ascii ''src/src'', True), (ascii ''src/main.py'', False)] \<and>
   fst (scaffold_project example_world example_fs (tree_request example1_prompt False)) =
     Inr (live_result Tree
            [ascii ''/b/t/README.md'', ascii ''/b/t/src/src'', ascii ''/b/t/src/main.py''] [] [])"
proof (intro conjI)
  show "collapse_tree (parse_ascii_tree example1_prompt) =
     [(ascii ''README.md'', False), (ascii ''src/src'', True), (ascii ''src/main.py'', False)]"
    by (simp add: example1_items collapse_tree_def ascii_def slash_def)
qed (rule example1_items, rule example1_result)

subsection \<open>C2\<close>

text \<open>
  Claim C2. In a live run, when an entry fails the check of \<^verbatim>\<open>safe_join\<close> against the
  target directory and every entry before it passes, the request ends with that error
  where the loop stands: nothing is done for the failing entry or for any entry after it,
  and the file system is the one that the entries before it have left.
\<close>

theorem C2_confinement_violation_stops_the_loop:
  assumes "prepare w fs rq = Inr (sel, bp, pre @ (rel, isd) # post, cs, bt)"
    and "\<not> dry_run rq"
    and "\<forall>(r, d) \<in> set pre. \<exists>p. safe_join (working_dir w) bt r = Inr p"
    and "safe_join (working_dir w) bt rel = Inl e"
  shows "scaffold_project w fs rq =
           (Inl e, fst (snd (materialize (working_dir w) (overwrite rq) cs bt pre (fs, no_lists))))"
proof -
  let ?m = "materialize (working_dir w) (overwrite rq) cs bt"
  obtain r1 fs1 ls1 where m1: "?m pre (fs, no_lists) = (r1, fs1, ls1)"
    by (metis prod_cases3)
  from materialize_None_iff[of "working_dir w" "overwrite rq" cs bt pre "(fs, no_lists)"] assms(3) m1
  have r1: "r1 = None" by simp
  have "?m (pre @ (rel, isd) # post) (fs, no_lists) = (Some e, fs1, ls1)"
    by (simp add: materialize_append m1 r1 assms(4))
  from scaffold_live(1,2)[OF assms(1,2) this] m1 show ?thesis
    by (simp add: prod_eq_iff)
qed

text \<open>
  An instance: the two-line prompt whose first line is the file \<open>a\<close> and whose second line
  is \<open>../../x\<close>.
\<close>

theorem C2_confinement_violation_stops_the_loop_witness:
  "prepare example_world example_fs (tree_request escaping_prompt False) =
     Inr (Tree, base_dir, [(ascii ''a'', False)] @ (ascii ''../../x'', False) # [], Map.empty, target_dir) \<and>
   \<not> dry_run (tree_request escaping_prompt False) \<and>
   safe_join (working_dir example_world) target_dir (ascii ''a'') =
     Inr \<lparr>slashes = 1, parts = [ascii ''b'', ascii ''t'', ascii ''a'']\<rparr> \<and>
   safe_join (working_dir example_world) target_dir (ascii ''../../x'') =
     Inl (Escapes (ascii ''/x'') (ascii ''/b/t'')) \<and>
   scaffold_project example_world example_fs (tree_request escaping_prompt False) =
     (Inl (Escapes (ascii ''/x'') (ascii ''/b/t'')),
      fst (snd (materialize (working_dir example_world) (overwrite (tree_request escaping_prompt False))
                  Map.empty target_dir [(ascii ''a'', False)] (example_fs, no_lists))))"
proof -
  have h1: "prepare example_world example_fs (tree_request escaping_prompt False) =
     Inr (Tree, base_dir, [(ascii ''a'', False)] @ (ascii ''../../x'', False) # [], Map.empty, target_dir)"
    by (simp add: prepare_tree escaping_paths)
  have h2: "\<not> dry_run (tree_request escaping_prompt False)"
    by (simp add: tree_request_def)
  have a: "safe_join (working_dir example_world) target_dir (ascii ''a'') =
     Inr \<lparr>slashes = 1, parts = [ascii ''b'', ascii ''t'', ascii ''a'']\<rparr>"
    by (simp add: example_defs path_defs text_defs)
  then have h3: "\<forall>(r, d) \<in> set [(ascii ''a'', False)].
                  \<exists>p. safe_join (working_dir example_world) target_dir r = Inr p"
    by simp
  have h4: "safe_join (working_dir example_world) target_dir (ascii ''../../x'') =
     Inl (Escapes (ascii ''/x'') (ascii ''/b/t''))"
    by (simp add: example_defs path_defs text_defs)
  from C2_confinement_violation_stops_the_loop[OF h1 h2 h3 h4] h1 h2 a h4 show ?thesis by blast
qed

text \<open>
  In that run the file of the first line is on disk when the request ends with the
  error: it was not there before.
\<close>

theorem C2_earlier_entries_are_written:
  "fst (scaffold_project example_world example_fs (tree_request escaping_prompt False)) =
     Inl (Escapes (ascii ''/x'') (ascii ''/b/t'')) \<and>
   example_fs [ascii ''b'', ascii ''t'', ascii ''a''] = None \<and>
   snd (scaffold_project example_world example_fs (tree_request escaping_prompt False))
     [ascii ''b'', ascii ''t'', ascii ''a''] = Some (File [])"
proof (intro conjI)
  show "fst (scaffold_project example_world example_fs (tree_request escaping_prompt False)) =
     Inl (Escapes (ascii ''/x'') (ascii ''/b/t''))"
    using escaping_paths
    by (simp add: scaffold_project_def prepare_tree)
       (simp add: example_defs path_defs text_defs fs_defs)
  show "example_fs [ascii ''b'', ascii ''t'', ascii ''a''] = None"
    by (simp add: example_fs_def ascii_def)
  show "snd (scaffold_project example_world example_fs (tree_request escaping_prompt False))
     [ascii ''b'', ascii ''t'', ascii ''a''] = Some (File [])"
    using escaping_paths
    by (simp add: scaffold_project_def prepare_tree)
       (simp add: example_defs path_defs text_defs fs_defs)
qed

subsection \<open>C3\<close>

text \<open>
  Claim C3. A dry run joins \<^verbatim>\<open>base_target\<close> and the entry for the paths of its plan,
  without \<^verbatim>\<open>safe_join\<close>: for the one-line prompt \<open>../../etc/passwd\<close> the dry run returns a
  plan that holds the path \<open>/b/t/../../etc/passwd\<close>, neither resolved nor checked, while
  the live run of the same request ends with the error of \<^verbatim>\<open>safe_join\<close>.
\<close>

theorem C3_dry_run_plans_escaping_path:
  "fst (scaffold_project example_world example_fs (tree_request passwd_prompt True)) =
     Inr \<lparr> created = [], skipped = [], errors = [], selected_mode = Tree, base = ascii ''/b'',
           target = ascii ''/b/t'',
           plan = Some [(ascii ''/b/t/../../etc/passwd'', ascii ''file'')], is_dry_run = True \<rparr> \<and>
   fst (scaffold_project example_world example_fs (tree_request passwd_prompt False)) =
     Inl (Escapes (ascii ''/etc/passwd'') (ascii ''/b/t''))"
proof (intro conjI)
  show "fst (scaffold_project example_world example_fs (tree_request passwd_prompt True)) =
     Inr \<lparr> created = [], skipped = [], errors = [], selected_mode = Tree, base = ascii ''/b'',
           target = ascii ''/b/t'',
           plan = Some [(ascii ''/b/t/../../etc/passwd'', ascii ''file'')], is_dry_run = True \<rparr>"
    using passwd_paths
    by (simp add: scaffold_project_def prepare_tree)
       (simp add: example_defs path_defs text_defs)
  show "fst (scaffold_project example_world example_fs (tree_request passwd_prompt False)) =
     Inl (Escapes (ascii ''/etc/passwd'') (ascii ''/b/t''))"
    using passwd_paths
    by (simp add: scaffold_project_def prepare_tree)
       (simp add: example_defs path_defs text_defs)
qed

subsection \<open>C4\<close>

text \<open>
  Claim C4. When the entries of a request resolve to pairwise distinct absolute paths,
  every path is recorded in at most one of \<^verbatim>\<open>created\<close>, \<^verbatim>\<open>skipped\<close> and \<^verbatim>\<open>errors\<close>.
\<close>

theorem C4_lists_disjoint_for_distinct_paths:
  assumes "scaffold_project w fs rq = (Inr res, fs')"
    and "prepare w fs rq = Inr (sel, bp, paths, cs, bt)"
    and "distinct (map (\<lambda>(rel, isd). path_str (entry_path (working_dir w) bt rel)) paths)"
  shows "set (created res) \<inter> set (skipped res) = {} \<and>
         set (created res) \<inter> fst ` set (errors res) = {} \<and>
         set (skipped res) \<inter> fst ` set (errors res) = {}"
proof (cases "dry_run rq")
  case True
  from scaffold_dry[OF True assms(1)] show ?thesis by simp
next
  case False
  from scaffold_live_result[OF assms(1) False assms(2)] obtain ls where
    m: "materialize (working_dir w) (overwrite rq) cs bt paths (fs, no_lists) = (None, fs', ls)"
    and l: "created res = created ls" "skipped res = skipped ls" "errors res = errors ls" by auto
  from materialize_mset[OF m]
  have "mset (all_paths ls) = mset (map (\<lambda>(rel, isd). path_str (entry_path (working_dir w) bt rel)) paths)"
    by (simp add: all_paths_def no_lists_def)
  with assms(3) have "distinct (all_paths ls)"
    by (metis distinct_count_atmost_1 set_mset_mset mset_eq_setD)
  then show ?thesis using l by (auto simp: all_paths_def)
qed

text \<open>
  An instance with one entry in each list. Where the target holds a directory \<open>a\<close>, the
  lines \<open>a\<close>, \<open>c\<close> and \<open>c/\<close> give the file \<open>a\<close>, which is skipped, the file \<open>c\<close>, which is
  created, and the directory \<open>c/c\<close>, which fails below the file \<open>c\<close>.
\<close>

theorem C4_lists_disjoint_for_distinct_paths_witness:
  "scaffold_project example_world example_fs_with_dir (tree_request three_lists_prompt False) =
     (Inr (live_result Tree [ascii ''/b/t/c''] [ascii ''/b/t/a'']
             [(ascii ''/b/t/c/c'', NotADirectoryError)]),
      snd (scaffold_project example_world example_fs_with_dir (tree_request three_lists_prompt False))) \<and>
   prepare example_world example_fs_with_dir (tree_request three_lists_prompt False) =
     Inr (Tree, base_dir, [(ascii ''a'', False), (ascii ''c'', False), (ascii ''c/c'', True)],
          Map.empty, target_dir) \<and>
   distinct (map (\<lambda>(rel, isd). path_str (entry_path (working_dir example_world) target_dir rel))
               [(ascii ''a'', False), (ascii ''c'', False), (ascii ''c/c'', True)]) \<and>
   set (created (live_result Tree [ascii ''/b/t/c''] [ascii ''/b/t/a'']
                   [(ascii ''/b/t/c/c'', NotADirectoryError)])) \<inter>
     set (skipped (live_result Tree [ascii ''/b/t/c''] [ascii ''/b/t/a'']
                     [(ascii ''/b/t/c/c'', NotADirectoryError)])) = {} \<and>
   set (created (live_result Tree [ascii ''/b/t/c''] [ascii ''/b/t/a'']
                   [(ascii ''/b/t/c/c'', NotADirectoryError)])) \<inter>
     fst ` set (errors (live_result Tree [ascii ''/b/t/c''] [ascii ''/b/t/a'']
                          [(ascii ''/b/t/c/c'', NotADirectoryError)])) = {} \<and>
   set (skipped (live_result Tree [ascii ''/b/t/c''] [ascii ''/b/t/a'']
                   [(ascii ''/b/t/c/c'', NotADirectoryError)])) \<inter>
     fst ` set (errors (live_result Tree [ascii ''/b/t/c''] [ascii ''/b/t/a'']
                          [(ascii ''/b/t/c/c'', NotADirectoryError)])) = {}"
proof -
  note h1 = pair_of_fst[OF three_lists_result]
  have h2: "prepare example_world example_fs_with_dir (tree_request three_lists_prompt False) =
     Inr (Tree, base_dir, [(ascii ''a'', False), (ascii ''c'', False), (ascii ''c/c'', True)],
          Map.empty, target_dir)"
    by (simp add: prepare_tree_with_dir three_lists_paths)
  have h3: "distinct (map (\<lambda>(rel, isd). path_str (entry_path (working_dir example_world) target_dir rel))
               [(ascii ''a'', False), (ascii ''c'', False), (ascii ''c/c'', True)])"
    by (simp add: example_defs path_defs text_defs)
  from C4_lists_disjoint_for_distinct_paths[OF h1 h2 h3] h1 h2 h3 show ?thesis by blast
qed

text \<open>
  With the same file on two lines, its path is in \<^verbatim>\<open>created\<close> for the first line and in
  \<^verbatim>\<open>skipped\<close> for the second.
\<close>

theorem C4_duplicate_path_created_and_skipped:
  "fst (scaffold_project example_world example_fs (tree_request twice_prompt False)) =
     Inr (live_result Tree [ascii ''/b/t/a''] [ascii ''/b/t/a''] [])"
  using twice_paths
  by (simp add: scaffold_project_def prepare_tree)
     (simp add: example_defs path_defs text_defs fs_defs Let_def)

subsection \<open>C5\<close>

text \<open>
  Claim C5. Take a live request in the mode \<open>json\<close> or \<open>yaml\<close> (chosen or detected) of the
  nested-mapping shape whose entries land on pairwise distinct paths, and a key of the
  mapping, at any depth, whose value is not a mapping. If the run records the path of the
  key in \<^verbatim>\<open>created\<close>, the file there holds, after the run, the default snippet of the base
  name of the key (the empty text when there is none) when the value is null, and the
  text of the value otherwise; and that text can be encoded as UTF-8.
\<close>

theorem C5_leaf_value_content:
  assumes "scaffold_project w fs rq = (Inr res, fs')" and "\<not> dry_run rq"
    and "prepare w fs rq = Inr (sel, bp, paths, cs, bt)"
    and "sel = Json \<and> json_loads w (prompt rq) = Some data \<or>
         sel = Yaml \<and> yaml_safe_load w (prompt rq) = Some data"
    and "nested_mapping data = Some m"
    and "(q, v) \<in> set (leaf_values (py_repr w) [] m)"
    and "distinct (map (\<lambda>(rel, isd). parts (entry_path (working_dir w) bt rel)) paths)"
    and "path_str (entry_path (working_dir w) bt q) \<in> set (created res)"
  shows "node_at fs' (parts (entry_path (working_dir w) bt q)) =
           Some (File (if v = PNone then default_snippet q else py_str (py_repr w) v)) \<and>
         encodable (if v = PNone then default_snippet q else py_str (py_repr w) v)"
proof -
  let ?c = "if v = PNone then None else Some (py_str (py_repr w) v)"
  let ?P = "entry_path (working_dir w) bt q"
  from prepare_structured[OF assms(3,4)] parse_nested[OF assms(5)] obtain es where
    es: "walk (py_repr w) [] m = Inr es" and pc: "(paths, cs) = collect es ([], Map.empty)"
    by auto
  from pc have paths: "paths = map (\<lambda>(p, isd, c). (p, isd)) es"
    by (metis collect_paths fst_conv append_Nil)
  from pc have cs: "cs = snd (collect es ([], Map.empty))" by (metis snd_conv)
  from walk_leaf[OF es assms(6)] have e: "(q, False, ?c) \<in> set es" .
  then have qp: "(q, False) \<in> set paths" unfolding paths by force
  have "distinct (map fst paths)"
  proof -
    have "map (\<lambda>(rel, isd). parts (entry_path (working_dir w) bt rel)) paths =
          map (\<lambda>rel. parts (entry_path (working_dir w) bt rel)) (map fst paths)"
      by (simp add: case_prod_unfold comp_def)
    with assms(7) show ?thesis by (metis distinct_map)
  qed
  then have "distinct (map fst es)" unfolding paths by (simp add: comp_def case_prod_unfold)
  from collect_content[OF this e] cs have "cs q = Some ?c" by simp
  then have fc: "file_content cs q = (if v = PNone then default_snippet q else py_str (py_repr w) v)"
    by (simp add: file_content_def)
  from scaffold_live_result[OF assms(1,2,3)] obtain ls where
    mt: "materialize (working_dir w) (overwrite rq) cs bt paths (fs, no_lists) = (None, fs', ls)"
    and l: "created res = created ls" by auto
  note good = good_parts_working_dir[of w] prepare_good_target[OF assms(3)]
  from assms(8) l have "path_str ?P \<in> set (created ls)" by simp
  moreover have "path_str ?P \<notin> set (created no_lists)" by (simp add: no_lists_def)
  ultimately have "node_at fs' (parts ?P) = Some (File (file_content cs q)) \<and>
                   encodable (file_content cs q)"
    by (rule materialize_created_content[OF good assms(7) qp mt])
  then show ?thesis unfolding fc .
qed

text \<open>
  An instance: the mapping with the key \<open>README.md\<close> of value null and the key \<open>n.txt\<close> of
  value \<open>hi\<close>.
\<close>

theorem C5_leaf_value_content_witness:
  "scaffold_project example_world example_fs (json_request nested_text) =
     (Inr (live_result Json [ascii ''/b/t/README.md'', ascii ''/b/t/n.txt''] [] []),
      snd (scaffold_project example_world example_fs (json_request nested_text))) \<and>
   \<not> dry_run (json_request nested_text) \<and>
   prepare example_world example_fs (json_request nested_text) =
     Inr (Json, base_dir, [(ascii ''README.md'', False), (ascii ''n.txt'', False)], nested_contents,
          target_dir) \<and>
   json_loads example_world (prompt (json_request nested_text)) = Some nested_data \<and>
   nested_mapping nested_data =
     Some [(PStr (ascii ''README.md''), PNone), (PStr (ascii ''n.txt''), PStr (ascii ''hi''))] \<and>
   (ascii ''README.md'', PNone) \<in> set (leaf_values (py_repr example_world) []
      [(PStr (ascii ''README.md''), PNone), (PStr (ascii ''n.txt''), PStr (ascii ''hi''))]) \<and>
   distinct (map (\<lambda>(rel, isd). parts (entry_path (working_dir example_world) target_dir rel))
               [(ascii ''README.md'', False), (ascii ''n.txt'', False)]) \<and>
   path_str (entry_path (working_dir example_world) target_dir (ascii ''README.md''))
     \<in> set (created (live_result Json [ascii ''/b/t/README.md'', ascii ''/b/t/n.txt''] [] [])) \<and>
   node_at (snd (scaffold_project example_world example_fs (json_request nested_text)))
     (parts (entry_path (working_dir example_world) target_dir (ascii ''README.md''))) =
     Some (File (if PNone = PNone then default_snippet (ascii ''README.md'')
                 else py_str (py_repr example_world) PNone)) \<and>
   default_snippet (ascii ''README.md'') =
     ascii ''# Project'' @ [10, 10] @ ascii ''Describe your project here.'' @ [10]"
proof -
  let ?rq = "json_request nested_text"
  let ?m = "[(PStr (ascii ''README.md''), PNone), (PStr (ascii ''n.txt''), PStr (ascii ''hi''))]"
  note h1 = pair_of_fst[OF nested_result]
  have h2: "\<not> dry_run ?rq"
    by (simp add: json_request_def)
  note h3 = prepare_nested
  have j: "json_loads example_world (prompt ?rq) = Some nested_data"
    using loads_nested by (simp add: json_request_def)
  then have h4: "Json = Json \<and> json_loads example_world (prompt ?rq) = Some nested_data \<or>
                 Json = Yaml \<and> yaml_safe_load example_world (prompt ?rq) = Some nested_data"
    by simp
  have h5: "nested_mapping nested_data = Some ?m"
    by (simp add: nested_data_def parser_defs text_defs)
  have h6: "(ascii ''README.md'', PNone) \<in> set (leaf_values (py_repr example_world) [] ?m)"
    by (simp add: example_world_def parser_defs text_defs)
  have h7: "distinct (map (\<lambda>(rel, isd). parts (entry_path (working_dir example_world) target_dir rel))
               [(ascii ''README.md'', False), (ascii ''n.txt'', False)])"
    by (simp add: example_defs path_defs text_defs)
  have h8: "path_str (entry_path (working_dir example_world) target_dir (ascii ''README.md''))
     \<in> set (created (live_result Json [ascii ''/b/t/README.md'', ascii ''/b/t/n.txt''] [] []))"
    by (simp add: example_defs path_defs text_defs)
  have d: "default_snippet (ascii ''README.md'') =
     ascii ''# Project'' @ [10, 10] @ ascii ''Describe your project here.'' @ [10]"
    by (simp add: default_snippet_def DEFAULT_SNIPPETS_def basename_def text_defs)
  from C5_leaf_value_content[OF h1 h2 h3 h4 h5 h6 h7 h8] h1 h2 h3 j h5 h6 h7 h8 d
  show ?thesis by blast
qed

text \<open>
  The file of the key \<open>README.md\<close>, whose value is null, holds the default snippet and
  not the empty text.
\<close>

theorem C5_null_readme_gets_snippet:
  "json_loads example_world nested_text = Some nested_data \<and>
   snd (scaffold_project example_world example_fs (json_request nested_text))
     [ascii ''b'', ascii ''t'', ascii ''README.md''] =
   Some (File (ascii ''# Project'' @ [10, 10] @ ascii ''Describe your project here.'' @ [10])) \<and>
   snd (scaffold_project example_world example_fs (json_request nested_text))
     [ascii ''b'', ascii ''t'', ascii ''README.md''] \<noteq> Some (File [])"
  using loads_nested nested_readme by (simp add: ascii_def)

subsection \<open>C6\<close>

text \<open>
  Claim C6. A dry run leaves the file system as it is, and a result it returns has
  \<^verbatim>\<open>dry_run\<close> set, carries a plan, and has empty \<^verbatim>\<open>created\<close>, \<^verbatim>\<open>skipped\<close> and
  \<^verbatim>\<open>errors\<close>.
\<close>

theorem C6_dry_run_leaves_file_system:
  "dry_run rq \<Longrightarrow>
     snd (scaffold_project w fs rq) = fs \<and>
     (\<forall>r. fst (scaffold_project w fs rq) = Inr r \<longrightarrow>
        is_dry_run r \<and> plan r \<noteq> None \<and> created r = [] \<and> skipped r = [] \<and> errors r = [])"
  by (auto simp: scaffold_project_def split: sum.splits prod.splits)

text \<open>
  An instance: the dry run of the prompt with the one line \<open>a\<close>, which returns a plan.
\<close>

theorem C6_dry_run_leaves_file_system_witness:
  "dry_run (tree_request (ascii ''a'') True) \<and>
   fst (scaffold_project example_world example_fs (tree_request (ascii ''a'') True)) =
     Inr \<lparr> created = [], skipped = [], errors = [], selected_mode = Tree, base = ascii ''/b'',
           target = ascii ''/b/t'', plan = Some [(ascii ''/b/t/a'', ascii ''file'')],
           is_dry_run = True \<rparr> \<and>
   snd (scaffold_project example_world example_fs (tree_request (ascii ''a'') True)) = example_fs"
proof -
  have h: "dry_run (tree_request (ascii ''a'') True)" by (simp add: tree_request_def)
  have r: "fst (scaffold_project example_world example_fs (tree_request (ascii ''a'') True)) =
     Inr \<lparr> created = [], skipped = [], errors = [], selected_mode = Tree, base = ascii ''/b'',
           target = ascii ''/b/t'', plan = Some [(ascii ''/b/t/a'', ascii ''file'')],
           is_dry_run = True \<rparr>"
    using single_paths
    by (simp add: scaffold_project_def prepare_tree)
       (simp add: example_defs path_defs text_defs)
  from C6_dry_run_leaves_file_system[OF h, of example_world example_fs] h r show ?thesis by blast
qed

subsection \<open>C7\<close>

text \<open>
  Claim C7. When a live run without overwriting has returned a result, the same request
  on the file system it left returns a result as well. Every path in \<^verbatim>\<open>created\<close> of the
  first run that is a regular file on disk is in \<^verbatim>\<open>skipped\<close> and not in \<^verbatim>\<open>created\<close> of
  the second run, and its content is unchanged. Every directory entry in \<^verbatim>\<open>created\<close> of
  the first run that is a directory on disk is in \<^verbatim>\<open>created\<close> of the second run too.
\<close>

theorem C7_second_run_skips_files:
  assumes "scaffold_project w fs rq = (Inr r1, fs1)" and "\<not> dry_run rq" and "\<not> overwrite rq"
    and "prepare w fs rq = Inr (sel, bp, paths, cs, bt)"
  shows "\<exists>r2 fs2. scaffold_project w fs1 rq = (Inr r2, fs2) \<and>
           (\<forall>(rel, isd) \<in> set paths. \<forall>c.
              path_str (entry_path (working_dir w) bt rel) \<in> set (created r1) \<and>
              node_at fs1 (parts (entry_path (working_dir w) bt rel)) = Some (File c) \<longrightarrow>
                path_str (entry_path (working_dir w) bt rel) \<in> set (skipped r2) \<and>
                path_str (entry_path (working_dir w) bt rel) \<notin> set (created r2) \<and>
                node_at fs2 (parts (entry_path (working_dir w) bt rel)) = Some (File c)) \<and>
           (\<forall>(rel, isd) \<in> set paths.
              isd \<and> path_str (entry_path (working_dir w) bt rel) \<in> set (created r1) \<and>
              node_at fs1 (parts (entry_path (working_dir w) bt rel)) = Some Dir \<longrightarrow>
                path_str (entry_path (working_dir w) bt rel) \<in> set (created r2))"
proof -
  let ?wd = "working_dir w"
  let ?P = "\<lambda>rel. entry_path ?wd bt rel"
  let ?m = "materialize ?wd False cs bt paths"
  note good = good_parts_working_dir[of w] prepare_good_target[OF assms(4)]
  from scaffold_live_result[OF assms(1,2,4)] assms(3) obtain ls1 where
    m1: "?m (fs, no_lists) = (None, fs1, ls1)" and l1: "created r1 = created ls1" by auto
  have p2: "prepare w fs1 rq = Inr (sel, bp, paths, cs, bt)"
    by (rule prepare_mono[OF assms(4)]) (rule materialize_keeps[OF m1])
  obtain r fs2 ls2 where m2': "?m (fs1, no_lists) = (r, fs2, ls2)" by (metis prod_cases3)
  from materialize_None_iff[of ?wd False cs bt paths "(fs, no_lists)"]
       materialize_None_iff[of ?wd False cs bt paths "(fs1, no_lists)"] m1 m2'
  have "r = None" by simp
  with m2' have m2: "?m (fs1, no_lists) = (None, fs2, ls2)" by simp
  from scaffold_live(1,3)[OF p2 assms(2), of None fs2 ls2] m2 assms(3) obtain r2 where
    s2: "scaffold_project w fs1 rq = (Inr r2, fs2)"
    and l2: "created r2 = created ls2" "skipped r2 = skipped ls2"
    by (auto simp: prod_eq_iff)
  have files: "path_str (?P rel) \<in> set (skipped r2) \<and> path_str (?P rel) \<notin> set (created r2) \<and>
               node_at fs2 (parts (?P rel)) = Some (File c)"
    if a: "path_str (?P rel) \<in> set (created r1)" and f: "node_at fs1 (parts (?P rel)) = Some (File c)"
    for rel c
  proof -
    from materialize_created_origin[OF m1, of "path_str (?P rel)"] a l1
    obtain rel' isd' where o: "(rel', isd') \<in> set paths" "path_str (?P rel') = path_str (?P rel)"
      "if isd' then node_at fs1 (parts (?P rel')) = Some Dir
       else node_at fs (parts (?P rel')) = None \<and> (\<exists>c. node_at fs1 (parts (?P rel')) = Some (File c))"
      by (auto simp: no_lists_def)
    from entry_path_parts_inj[OF good o(2)] have eq: "parts (?P rel') = parts (?P rel)" .
    with o(3) f have "\<not> isd'" by (auto split: if_splits)
    with o(1) have "(rel', False) \<in> set paths" by simp
    from materialize_skips_existing[OF m2 this] f eq o(2) l2
    have sk: "path_str (?P rel) \<in> set (skipped r2)" by simp
    from materialize_keeps[OF m2 f] have keep: "node_at fs2 (parts (?P rel)) = Some (File c)" .
    have "path_str (?P rel) \<notin> set (created r2)"
    proof
      assume "path_str (?P rel) \<in> set (created r2)"
      with materialize_created_origin[OF m2, of "path_str (?P rel)"] l2
      obtain rel2 isd2 where t: "path_str (?P rel2) = path_str (?P rel)"
        "if isd2 then node_at fs2 (parts (?P rel2)) = Some Dir
         else node_at fs1 (parts (?P rel2)) = None \<and> (\<exists>c. node_at fs2 (parts (?P rel2)) = Some (File c))"
        by (auto simp: no_lists_def)
      from entry_path_parts_inj[OF good t(1)] have "parts (?P rel2) = parts (?P rel)" .
      with t(2) f keep show False by (auto split: if_splits)
    qed
    with sk keep show ?thesis by simp
  qed
  have dirs: "path_str (?P rel) \<in> set (created r2)"
    if "(rel, True) \<in> set paths" "node_at fs1 (parts (?P rel)) = Some Dir" for rel
    using materialize_dir_again[OF m2 that] l2 by simp
  from s2 files dirs show ?thesis by (intro exI[of _ r2] exI[of _ fs2]) auto
qed

text \<open>
  An instance: the prompt with the file \<open>a\<close> and the directory line \<open>d/\<close>.
\<close>

theorem C7_second_run_skips_files_witness:
  "scaffold_project example_world example_fs (tree_request file_and_dir_prompt False) =
     (Inr (live_result Tree [ascii ''/b/t/a'', ascii ''/b/t/d/d''] [] []),
      snd (scaffold_project example_world example_fs (tree_request file_and_dir_prompt False))) \<and>
   \<not> dry_run (tree_request file_and_dir_prompt False) \<and>
   \<not> overwrite (tree_request file_and_dir_prompt False) \<and>
   prepare example_world example_fs (tree_request file_and_dir_prompt False) =
     Inr (Tree, base_dir, [(ascii ''a'', False), (ascii ''d/d'', True)], Map.empty, target_dir) \<and>
   (\<exists>r2 fs2.
      scaffold_project example_world
        (snd (scaffold_project example_world example_fs (tree_request file_and_dir_prompt False)))
        (tree_request file_and_dir_prompt False) = (Inr r2, fs2) \<and>
      ascii ''/b/t/a'' \<in> set (skipped r2) \<and> ascii ''/b/t/a'' \<notin> set (created r2) \<and>
      node_at fs2 [ascii ''b'', ascii ''t'', ascii ''a''] = Some (File []) \<and>
      ascii ''/b/t/d/d'' \<in> set (created r2))"
proof -
  let ?rq = "tree_request file_and_dir_prompt False"
  let ?fs1 = "snd (scaffold_project example_world example_fs ?rq)"
  note h1 = pair_of_fst[OF file_and_dir_result]
  have h2: "\<not> dry_run ?rq" and h3: "\<not> overwrite ?rq"
    by (simp_all add: tree_request_def)
  have h4: "prepare example_world example_fs ?rq =
     Inr (Tree, base_dir, [(ascii ''a'', False), (ascii ''d/d'', True)], Map.empty, target_dir)"
    by (simp add: prepare_tree file_and_dir_paths)
  let ?ea = "entry_path (working_dir example_world) target_dir (ascii ''a'')"
  let ?ed = "entry_path (working_dir example_world) target_dir (ascii ''d/d'')"
  have pa: "parts ?ea = [ascii ''b'', ascii ''t'', ascii ''a'']"
    and pd: "parts ?ed = [ascii ''b'', ascii ''t'', ascii ''d'', ascii ''d'']"
    and sa: "path_str ?ea = ascii ''/b/t/a''"
    and sd: "path_str ?ed = ascii ''/b/t/d/d''"
    by (simp_all add: example_defs path_defs text_defs)
  have ca: "ascii ''/b/t/a'' \<in> set (created (live_result Tree [ascii ''/b/t/a'', ascii ''/b/t/d/d''] [] []))"
    and cd: "ascii ''/b/t/d/d'' \<in> set (created (live_result Tree [ascii ''/b/t/a'', ascii ''/b/t/d/d''] [] []))"
    by (simp_all add: live_result_def)
  have fa: "node_at ?fs1 [ascii ''b'', ascii ''t'', ascii ''a''] = Some (File [])"
    and fd: "node_at ?fs1 [ascii ''b'', ascii ''t'', ascii ''d'', ascii ''d''] = Some Dir"
    using file_and_dir_paths
    by (simp_all add: scaffold_project_def prepare_tree)
       (simp_all add: example_defs path_defs text_defs fs_defs Let_def)
  from C7_second_run_skips_files[OF h1 h2 h3 h4] obtain r2 fs2 where
    s2: "scaffold_project example_world ?fs1 ?rq = (Inr r2, fs2)"
    and f: "\<forall>(rel, isd) \<in> set [(ascii ''a'', False), (ascii ''d/d'', True)]. \<forall>c.
              path_str (entry_path (working_dir example_world) target_dir rel)
                \<in> set (created (live_result Tree [ascii ''/b/t/a'', ascii ''/b/t/d/d''] [] [])) \<and>
              node_at ?fs1 (parts (entry_path (working_dir example_world) target_dir rel)) = Some (File c) \<longrightarrow>
                path_str (entry_path (working_dir example_world) target_dir rel) \<in> set (skipped r2) \<and>
                path_str (entry_path (working_dir example_world) target_dir rel) \<notin> set (created r2) \<and>
                node_at fs2 (parts (entry_path (working_dir example_world) target_dir rel)) = Some (File c)"
    and d: "\<forall>(rel, isd) \<in> set [(ascii ''a'', False), (ascii ''d/d'', True)].
              isd \<and> path_str (entry_path (working_dir example_world) target_dir rel)
                \<in> set (created (live_result Tree [ascii ''/b/t/a'', ascii ''/b/t/d/d''] [] [])) \<and>
              node_at ?fs1 (parts (entry_path (working_dir example_world) target_dir rel)) = Some Dir \<longrightarrow>
                path_str (entry_path (working_dir example_world) target_dir rel) \<in> set (created r2)"
    by blast
  have "(ascii ''a'', False) \<in> set [(ascii ''a'', False), (ascii ''d/d'', True)]" by simp
  from bspec[OF f this] have "\<forall>c. path_str ?ea
                \<in> set (created (live_result Tree [ascii ''/b/t/a'', ascii ''/b/t/d/d''] [] [])) \<and>
              node_at ?fs1 (parts ?ea) = Some (File c) \<longrightarrow>
                path_str ?ea \<in> set (skipped r2) \<and> path_str ?ea \<notin> set (created r2) \<and>
                node_at fs2 (parts ?ea) = Some (File c)"
    by (simp only: prod.case)
  with ca fa have "ascii ''/b/t/a'' \<in> set (skipped r2) \<and> ascii ''/b/t/a'' \<notin> set (created r2) \<and>
      node_at fs2 [ascii ''b'', ascii ''t'', ascii ''a''] = Some (File [])"
    unfolding pa sa by blast
  moreover have "(ascii ''d/d'', True) \<in> set [(ascii ''a'', False), (ascii ''d/d'', True)]" by simp
  from bspec[OF d this] have "True \<and> path_str ?ed
                \<in> set (created (live_result Tree [ascii ''/b/t/a'', ascii ''/b/t/d/d''] [] [])) \<and>
              node_at ?fs1 (parts ?ed) = Some Dir \<longrightarrow> path_str ?ed \<in> set (created r2)"
    by (simp only: prod.case)
  with cd fd have "ascii ''/b/t/d/d'' \<in> set (created r2)"
    unfolding pd sd by blast
  ultimately show ?thesis using h1 h2 h3 h4 s2 by blast
qed

text \<open>
  A directory entry below a path that holds a file is recorded in \<^verbatim>\<open>errors\<close> and not in
  \<^verbatim>\<open>created\<close>: the lines \<open>a\<close> and \<open>a/\<close> give the file \<open>a\<close> and the directory entry \<open>a/a\<close>.
\<close>

theorem C7_directory_entry_in_errors:
  "tree_paths file_then_dir_prompt = [(ascii ''a'', False), (ascii ''a/a'', True)] \<and>
   fst (scaffold_project example_world example_fs (tree_request file_then_dir_prompt False)) =
     Inr (live_result Tree [ascii ''/b/t/a''] [] [(ascii ''/b/t/a/a'', NotADirectoryError)])"
proof (intro conjI)
  show "fst (scaffold_project example_world example_fs (tree_request file_then_dir_prompt False)) =
     Inr (live_result Tree [ascii ''/b/t/a''] [] [(ascii ''/b/t/a/a'', NotADirectoryError)])"
    using file_then_dir_paths
    by (simp add: scaffold_project_def prepare_tree)
       (simp add: example_defs path_defs text_defs fs_defs Let_def)
qed (rule file_then_dir_paths)

subsection \<open>C8\<close>



subsection \<open>C9\<close>

text \<open>
  Claim C9. A decoded mapping that has the key \<open>root\<close> and no key \<open>entries\<close> is taken for
  the flat-entry shape: the parser fails with the error that this shape requires an
  \<open>entries\<close> list, whatever else the mapping holds.
\<close>

theorem C9_root_key_commits_to_flat_shape:
  assumes "dict_get d ''root'' \<noteq> None" and "dict_get d ''entries'' = None"
  shows "parse_yaml_or_json repr (PDict d) = Inl FlatNeedsEntries"
  using assms by (simp add: parse_yaml_or_json_def)

text \<open>
  An instance: a mapping that the nested-mapping shape would read as two files.
\<close>

theorem C9_root_key_commits_to_flat_shape_witness:
  "dict_get [(PStr (ascii ''root''), PStr (ascii ''x'')), (PStr (ascii ''a''), PNone)] ''root'' \<noteq> None \<and>
   dict_get [(PStr (ascii ''root''), PStr (ascii ''x'')), (PStr (ascii ''a''), PNone)] ''entries'' = None \<and>
   parse_yaml_or_json example_repr
     (PDict [(PStr (ascii ''root''), PStr (ascii ''x'')), (PStr (ascii ''a''), PNone)]) =
     Inl FlatNeedsEntries"
proof -
  let ?d = "[(PStr (ascii ''root''), PStr (ascii ''x'')), (PStr (ascii ''a''), PNone)]"
  have h1: "dict_get ?d ''root'' \<noteq> None" and h2: "dict_get ?d ''entries'' = None"
    by (simp_all add: dict_get_def ascii_def)
  from C9_root_key_commits_to_flat_shape[OF h1 h2, of example_repr] h1 h2 show ?thesis by blast
qed

subsection \<open>C10\<close>

text \<open>
  Claim C10. In a live run without overwriting that returns a result, a file entry whose
  path holds a node before the run, a directory as well as a file, is recorded in
  \<^verbatim>\<open>skipped\<close>, and the node is there after the run as it was.
\<close>

theorem C10_existing_path_is_skipped:
  assumes "scaffold_project w fs rq = (Inr res, fs')" and "\<not> dry_run rq" and "\<not> overwrite rq"
    and "prepare w fs rq = Inr (sel, bp, paths, cs, bt)"
    and "(rel, False) \<in> set paths"
    and "node_at fs (parts (entry_path (working_dir w) bt rel)) = Some n"
  shows "path_str (entry_path (working_dir w) bt rel) \<in> set (skipped res) \<and>
         node_at fs' (parts (entry_path (working_dir w) bt rel)) = Some n"
proof -
  from scaffold_live_result[OF assms(1,2,4)] assms(3) obtain ls where
    m: "materialize (working_dir w) False cs bt paths (fs, no_lists) = (None, fs', ls)"
    and l: "skipped res = skipped ls" by auto
  from materialize_skips_existing[OF m assms(5)] assms(6) l
  have "path_str (entry_path (working_dir w) bt rel) \<in> set (skipped res)" by simp
  moreover from materialize_keeps[OF m assms(6)]
  have "node_at fs' (parts (entry_path (working_dir w) bt rel)) = Some n" .
  ultimately show ?thesis ..
qed

text \<open>
  An instance: the file entry \<open>a\<close> where the target holds a directory \<open>a\<close>.
\<close>

theorem C10_existing_path_is_skipped_witness:
  "scaffold_project example_world example_fs_with_dir (tree_request (ascii ''a'') False) =
     (Inr (live_result Tree [] [ascii ''/b/t/a''] []),
      snd (scaffold_project example_world example_fs_with_dir (tree_request (ascii ''a'') False))) \<and>
   \<not> dry_run (tree_request (ascii ''a'') False) \<and>
   \<not> overwrite (tree_request (ascii ''a'') False) \<and>
   prepare example_world example_fs_with_dir (tree_request (ascii ''a'') False) =
     Inr (Tree, base_dir, [(ascii ''a'', False)], Map.empty, target_dir) \<and>
   (ascii ''a'', False) \<in> set [(ascii ''a'', False)] \<and>
   node_at example_fs_with_dir (parts (entry_path (working_dir example_world) target_dir (ascii ''a'')))
     = Some Dir \<and>
   path_str (entry_path (working_dir example_world) target_dir (ascii ''a''))
     \<in> set (skipped (live_result Tree [] [ascii ''/b/t/a''] [])) \<and>
   node_at (snd (scaffold_project example_world example_fs_with_dir (tree_request (ascii ''a'') False)))
     (parts (entry_path (working_dir example_world) target_dir (ascii ''a''))) = Some Dir"
proof -
  let ?rq = "tree_request (ascii ''a'') False"
  note h1 = pair_of_fst[OF with_dir_result]
  have h2: "\<not> dry_run ?rq" and h3: "\<not> overwrite ?rq"
    by (simp_all add: tree_request_def)
  have h4: "prepare example_world example_fs_with_dir ?rq =
     Inr (Tree, base_dir, [(ascii ''a'', False)], Map.empty, target_dir)"
    by (simp add: prepare_tree_with_dir single_paths)
  have h5: "(ascii ''a'', False) \<in> set [(ascii ''a'', False)]" by simp
  have h6: "node_at example_fs_with_dir
              (parts (entry_path (working_dir example_world) target_dir (ascii ''a''))) = Some Dir"
    by (simp add: example_defs example_fs_with_dir_def path_defs text_defs)
  from C10_existing_path_is_skipped[OF h1 h2 h3 h4 h5 h6] h1 h2 h3 h4 h5 h6 show ?thesis by blast
qed

end
